theory Spec2Isabelle
  imports Main "HOL-Library.Sublist"
begin

section \<open>Python strings\<close>

text \<open>
  A Python \<open>str\<close> is modelled as a \<open>string\<close>: the code points 0 to 255, one per
  \<open>char\<close>. The classification and case mapping below are Python's own on these code
  points (\<open>str.isalpha\<close>, \<open>str.isdigit\<close>, \<open>str.lower\<close>).
\<close>

definition isalpha :: "char \<Rightarrow> bool" where
  "isalpha c =
     (let n = (of_char c :: nat)
      in (65 \<le> n \<and> n \<le> 90) \<or> (97 \<le> n \<and> n \<le> 122) \<or> n = 170 \<or> n = 181 \<or> n = 186
         \<or> (192 \<le> n \<and> n \<le> 214) \<or> (216 \<le> n \<and> n \<le> 246) \<or> (248 \<le> n \<and> n \<le> 255))"

definition isdigit :: "char \<Rightarrow> bool" where
  "isdigit c =
     (let n = (of_char c :: nat)
      in (48 \<le> n \<and> n \<le> 57) \<or> n = 178 \<or> n = 179 \<or> n = 185)"

definition lower_char :: "char \<Rightarrow> char" where
  "lower_char c =
     (let n = (of_char c :: nat)
      in if (65 \<le> n \<and> n \<le> 90) \<or> (192 \<le> n \<and> n \<le> 214) \<or> (216 \<le> n \<and> n \<le> 222)
         then char_of (n + 32) else c)"

definition lower :: "string \<Rightarrow> string" where
  "lower s = map lower_char s"

definition startswith :: "string \<Rightarrow> string \<Rightarrow> bool" where
  "startswith s p = (take (length p) s = p)"

definition endswith :: "string \<Rightarrow> string \<Rightarrow> bool" where
  "endswith s p = (length p \<le> length s \<and> drop (length s - length p) s = p)"

text \<open>Truthiness of an optional string: \<open>None\<close> and \<open>''\<close> are false.\<close>

fun truthy :: "string option \<Rightarrow> bool" where
  "truthy None = False"
| "truthy (Some s) = (s \<noteq> [])"

text \<open>\<open>'%d' % n\<close> for a non-negative \<open>n\<close>: the decimal digits, most significant first.\<close>

definition digit_char :: "nat \<Rightarrow> char" where
  "digit_char d = char_of (48 + d)"

fun str_of_nat :: "nat \<Rightarrow> string" where
  "str_of_nat n =
     (if n < 10 then [digit_char n] else str_of_nat (n div 10) @ [digit_char (n mod 10)])"

declare str_of_nat.simps [simp del]

text \<open>\<open>'%0wd' % n\<close>: zeros on the left up to width \<open>w\<close>, never truncating.\<close>

definition zero_pad :: "nat \<Rightarrow> nat \<Rightarrow> string" where
  "zero_pad w n = replicate (w - length (str_of_nat n)) (CHR ''0'') @ str_of_nat n"

section \<open>\<open>os.path\<close>\<close>

text \<open>\<open>posixpath.join\<close> of two components.\<close>

definition path_join :: "string \<Rightarrow> string \<Rightarrow> string" where
  "path_join a b =
     (if startswith b ''/'' then b
      else if a = [] \<or> endswith a ''/'' then a @ b
      else a @ ''/'' @ b)"

text \<open>The first argument as \<open>join\<close> uses it in front of a relative name.\<close>

definition dir_prefix :: "string \<Rightarrow> string" where
  "dir_prefix a = (if a = [] \<or> endswith a ''/'' then a else a @ ''/'')"

text \<open>\<open>str.rfind\<close> of a character: the index of its last occurrence.\<close>

fun rfind :: "string \<Rightarrow> char \<Rightarrow> nat option" where
  "rfind [] c = None"
| "rfind (x # xs) c =
     (case rfind xs c of
        Some i \<Rightarrow> Some (Suc i)
      | None \<Rightarrow> if x = c then Some 0 else None)"

text \<open>
  \<open>posixpath.splitext\<close>: the extension starts at the last dot of the last path
  component, unless that component has only dots before it.
\<close>

definition splitext :: "string \<Rightarrow> string \<times> string" where
  "splitext p =
     (let filenameIndex = (case rfind p (CHR ''/'') of None \<Rightarrow> 0 | Some i \<Rightarrow> Suc i)
      in case rfind p (CHR ''.'') of
           None \<Rightarrow> (p, [])
         | Some dotIndex \<Rightarrow>
             if filenameIndex \<le> dotIndex
                \<and> (\<exists>c \<in> set (take (dotIndex - filenameIndex) (drop filenameIndex p)). c \<noteq> CHR ''.'')
             then (take dotIndex p, drop dotIndex p)
             else (p, []))"

section \<open>Filename sanitization\<close>

definition sanitize_filename :: "string \<Rightarrow> string" where
  "sanitize_filename badstr =
     filter (\<lambda>x. isalpha x \<or> isdigit x \<or> x \<in> set ''-_.'') badstr"

section \<open>Messages\<close>

text \<open>
  A part as the email package presents it: its headers in order, its content type, the
  filename its headers declare (\<open>get_filename()\<close>), and a payload that is either bytes,
  already transfer-decoded, or a list of sub-parts.
\<close>

record part_info =
  headers :: "(string \<times> string) list"
  maintype :: string
  subtype :: string
  declared_filename :: "string option"

datatype part =
    Leaf part_info string
  | Multi part_info "part list"

fun info :: "part \<Rightarrow> part_info" where
  "info (Leaf i b) = i"
| "info (Multi i ps) = i"

fun is_multipart :: "part \<Rightarrow> bool" where
  "is_multipart (Leaf i b) = False"
| "is_multipart (Multi i ps) = True"

text \<open>\<open>get_payload(decode=True)\<close>: \<open>None\<close> for a multipart.\<close>

fun get_payload_decoded :: "part \<Rightarrow> string option" where
  "get_payload_decoded (Leaf i b) = Some b"
| "get_payload_decoded (Multi i ps) = None"

definition get_content_maintype :: "part \<Rightarrow> string" where
  "get_content_maintype p = maintype (info p)"

definition get_content_subtype :: "part \<Rightarrow> string" where
  "get_content_subtype p = subtype (info p)"

definition get_content_type :: "part \<Rightarrow> string" where
  "get_content_type p = maintype (info p) @ ''/'' @ subtype (info p)"

definition get_filename :: "part \<Rightarrow> string option" where
  "get_filename p = declared_filename (info p)"

definition keys :: "part \<Rightarrow> string list" where
  "keys p = map fst (headers (info p))"

text \<open>\<open>part[k]\<close>: the value of the first header whose name is \<open>k\<close>, ignoring case.\<close>

fun lookup_header :: "(string \<times> string) list \<Rightarrow> string \<Rightarrow> string option" where
  "lookup_header [] k = None"
| "lookup_header ((n, v) # hs) k =
     (if lower n = lower k then Some v else lookup_header hs k)"

definition getitem :: "part \<Rightarrow> string \<Rightarrow> string option" where
  "getitem p k = lookup_header (headers (info p)) k"

text \<open>\<open>msg.walk()\<close>: the part itself, then its sub-parts, depth first.\<close>

fun walk :: "part \<Rightarrow> part list" where
  "walk (Leaf i b) = [Leaf i b]"
| "walk (Multi i ps) = Multi i ps # concat (map walk ps)"

text \<open>
  \<open>part.get_content_type == 'message/rfc822'\<close> in the source compares the bound method,
  not its result, with a string: the comparison is false for every part.
\<close>

definition bound_method_equals :: "part \<Rightarrow> string \<Rightarrow> bool" where
  "bound_method_equals p s = False"

section \<open>Errors, effects and the environment\<close>

text \<open>
  Every exception the code can raise is a value. \<open>OSError\<close> carries the path or program
  that could not be opened or started. \<open>RegexOutsideModel\<close> is not a Python exception: it
  marks a run whose content-identifier or replacement text contains a regular-expression
  metacharacter, where Python's \<open>re\<close> does something this model does not follow.
\<close>

datatype error =
    OSError string
  | TypeError
  | AttributeError
  | NameError string
  | IndexError
  | RegexOutsideModel

text \<open>What a run does to the outside world, oldest event first.\<close>

datatype event =
    Wrote string string        \<comment> \<open>\<open>open(path, 'wb')\<close> and \<open>write\<close>: path, bytes\<close>
  | Called "string list" int   \<comment> \<open>\<open>subprocess.call\<close>: the command and its exit status\<close>
  | Spawned "string list"      \<comment> \<open>\<open>subprocess.Popen\<close>: started and not waited for\<close>

text \<open>
  The library and operating-system behaviour the code relies on and this repository does
  not define: the \<open>mimetypes\<close> table, the email parser, the text codecs, whether a
  file can be written or a program started, and the exit status a started program ends
  with.
\<close>

record environment =
  parse_message :: "string \<Rightarrow> part"
  guess_extension :: "string \<Rightarrow> string option"
  can_write :: "string \<Rightarrow> bool"
  can_start :: "string \<Rightarrow> bool"
  exit_status :: "string list \<Rightarrow> int"
  decode_text :: "string \<Rightarrow> string"
  encode_text :: "string \<Rightarrow> string"

section \<open>Global preferences\<close>

record prefs =
  USE_WVHTML_FOR_DOC :: bool
  UNOCONV_STARTUP_TIME :: string
  BROWSER :: string
  BROWSER_FIRST_ARGS :: "string list"
  BROWSER_ARGS :: "string list"
  CONVERT_PDF_TO_HTML :: bool

text \<open>The values the module sets with \<open>USE_QUTEBROWSER = True\<close>.\<close>

definition qutebrowser_prefs :: prefs where
  "qutebrowser_prefs =
     \<lparr> USE_WVHTML_FOR_DOC = False,
       UNOCONV_STARTUP_TIME = ''14'',
       BROWSER = ''qutebrowser'',
       BROWSER_FIRST_ARGS =
         [''--target'', ''private-window'', ''--basedir'', ''/tmp/mailattachments'',
          ''-s'', ''content.dns_prefetch'', ''false'',
          ''-s'', ''content.javascript.enabled'', ''false''],
       BROWSER_ARGS = [''--target'', ''tab-bg'', ''--basedir'', ''/tmp/mailattachments''],
       CONVERT_PDF_TO_HTML = True \<rparr>"

section \<open>The maildir walk\<close>

datatype fsnode =
    RegFile string
  | Directory "(string \<times> fsnode) list"

text \<open>The names \<open>os.walk\<close> puts in \<open>dirs\<close> and in \<open>files\<close> for one directory.\<close>

fun dir_names :: "(string \<times> fsnode) list \<Rightarrow> string list" where
  "dir_names [] = []"
| "dir_names ((n, RegFile c) # es) = dir_names es"
| "dir_names ((n, Directory ds) # es) = n # dir_names es"

fun file_names :: "(string \<times> fsnode) list \<Rightarrow> string list" where
  "file_names [] = []"
| "file_names ((n, RegFile c) # es) = n # file_names es"
| "file_names ((n, Directory ds) # es) = file_names es"

text \<open>\<open>os.walk(top)\<close>, top-down: the directory itself, then each subdirectory in turn.\<close>

fun os_walk :: "string \<Rightarrow> fsnode \<Rightarrow> (string \<times> string list \<times> string list) list"
  and os_walk_subdirs :: "string \<Rightarrow> (string \<times> fsnode) list \<Rightarrow> (string \<times> string list \<times> string list) list"
where
  "os_walk topdir (RegFile c) = []"
| "os_walk topdir (Directory es) = (topdir, dir_names es, file_names es) # os_walk_subdirs topdir es"
| "os_walk_subdirs topdir [] = []"
| "os_walk_subdirs topdir ((n, RegFile c) # es) = os_walk_subdirs topdir es"
| "os_walk_subdirs topdir ((n, Directory ds) # es) =
     os_walk (path_join topdir n) (Directory ds) @ os_walk_subdirs topdir es"

text \<open>The inner loop of \<open>find_first_maildir_file\<close>: the first name not starting with a dot.\<close>

fun first_visible :: "string \<Rightarrow> string list \<Rightarrow> string option" where
  "first_visible root [] = None"
| "first_visible root (f # fs) =
     (if \<not> startswith f ''.'' then Some (path_join root f) else first_visible root fs)"

fun find_in_walk :: "(string \<times> string list \<times> string list) list \<Rightarrow> string option" where
  "find_in_walk [] = None"
| "find_in_walk ((root, dirs, files) # rest) =
     (case first_visible root files of
        Some p \<Rightarrow> Some p
      | None \<Rightarrow> find_in_walk rest)"

definition find_first_maildir_file :: "string \<Rightarrow> fsnode \<Rightarrow> string option" where
  "find_first_maildir_file maildir node = find_in_walk (os_walk maildir node)"

text \<open>Reading the file at a path below the walked directory, as \<open>open(path).read()\<close> does.\<close>

fun read_below :: "string \<Rightarrow> fsnode \<Rightarrow> string \<Rightarrow> string option"
  and read_below_entries :: "string \<Rightarrow> (string \<times> fsnode) list \<Rightarrow> string \<Rightarrow> string option"
where
  "read_below topdir (RegFile c) path = (if path = topdir then Some c else None)"
| "read_below topdir (Directory es) path = read_below_entries topdir es path"
| "read_below_entries topdir [] path = None"
| "read_below_entries topdir ((n, node) # es) path =
     (case read_below (path_join topdir n) node path of
        Some c \<Rightarrow> Some c
      | None \<Rightarrow> read_below_entries topdir es path)"

section \<open>Part extraction\<close>

record extraction =
  counter :: nat
  filenames :: "string list"                         \<comment> \<open>the members of the set\<close>
  subfiles :: "(string \<times> string \<times> part) list"     \<comment> \<open>the dict, in insertion order\<close>
  html_parts :: "part list"

definition initial_extraction :: extraction where
  "initial_extraction = \<lparr> counter = 1, filenames = [], subfiles = [], html_parts = [] \<rparr>"

text \<open>\<open>d[k] = v\<close> on an insertion-ordered dict: a known key keeps its place.\<close>

fun dict_set :: "('k \<times> 'v) list \<Rightarrow> 'k \<Rightarrow> 'v \<Rightarrow> ('k \<times> 'v) list" where
  "dict_set [] k v = [(k, v)]"
| "dict_set ((k', v') # d) k v =
     (if k' = k then (k, v) # d else (k', v') # dict_set d k v)"

text \<open>The first key that is \<open>content-id\<close> in lower case, as the loop over the keys finds it.\<close>

fun find_content_id_key :: "string list \<Rightarrow> string option" where
  "find_content_id_key [] = None"
| "find_content_id_key (k # ks) =
     (if lower k = ''content-id'' then Some k else find_content_id_key ks)"

text \<open>\<open>content_id[1:-1]\<close> when the value starts with \<open><\<close> and ends with \<open>>\<close>.\<close>

definition strip_brackets :: "string \<Rightarrow> string" where
  "strip_brackets content_id =
     (if startswith content_id ''<'' \<and> endswith content_id ''>''
      then drop 1 (take (length content_id - 1) content_id)
      else content_id)"

text \<open>
  The content-id of a part and the counter after looking for it: the counter goes up
  by one whenever a content-id header is found.
\<close>

definition content_id_of :: "part \<Rightarrow> string option" where
  "content_id_of p =
     (case find_content_id_key (keys p) of
        None \<Rightarrow> None
      | Some k \<Rightarrow> map_option strip_brackets (getitem p k))"

definition counter_after_headers :: "nat \<Rightarrow> part \<Rightarrow> nat" where
  "counter_after_headers c p =
     (case find_content_id_key (keys p) of None \<Rightarrow> c | Some k \<Rightarrow> c + 1)"

text \<open>\<open>ext = mimetypes.guess_extension(...)\<close>, and \<open>'.bin'\<close> if that is not truthy.\<close>

definition part_extension :: "environment \<Rightarrow> part \<Rightarrow> string" where
  "part_extension env p =
     (if truthy (guess_extension env (get_content_type p))
      then the (guess_extension env (get_content_type p)) else ''.bin'')"

text \<open>The filename before it is made unique.\<close>

definition derive_filename :: "environment \<Rightarrow> nat \<Rightarrow> part \<Rightarrow> string" where
  "derive_filename env c p =
     (if truthy (get_filename p) then sanitize_filename (the (get_filename p))
      else if truthy (content_id_of p)
      then sanitize_filename (''cid'' @ the (content_id_of p) @ part_extension env p)
      else ''part-'' @ zero_pad 3 c @ part_extension env p)"

text \<open>The inverse of \<open>str_of_nat\<close> on digit strings, used to show the loop below ends.\<close>

definition nat_of_str :: "string \<Rightarrow> nat" where
  "nat_of_str s = foldl (\<lambda>acc c. 10 * acc + (of_char c - 48)) 0 s"

text \<open>
  The \<open>while filename in filenames\<close> loop: count up, and try base, dash, number, extension.
\<close>

function uniquify :: "string list \<Rightarrow> string \<Rightarrow> string \<Rightarrow> nat \<Rightarrow> string \<Rightarrow> string \<times> nat" where
  "uniquify fs orig_basename orig_ext c filename =
     (if filename \<in> set fs
      then uniquify fs orig_basename orig_ext (c + 1)
             (orig_basename @ ''-'' @ str_of_nat (c + 1) @ orig_ext)
      else (filename, c))"
  by pat_completeness auto

lemma nat_of_str_snoc: "nat_of_str (s @ [c]) = 10 * nat_of_str s + (of_char c - 48)"
  by (simp add: nat_of_str_def)

lemma of_char_digit_char: "d < 10 \<Longrightarrow> (of_char (digit_char d) :: nat) = 48 + d"
  by (simp add: digit_char_def)

lemma nat_of_str_of_nat: "nat_of_str (str_of_nat n) = n"
proof (induction n rule: str_of_nat.induct)
  case (1 n)
  show ?case
  proof (cases "n < 10")
    case True
    then show ?thesis
      by (subst str_of_nat.simps) (simp add: nat_of_str_def of_char_digit_char)
  next
    case False
    with 1 have "nat_of_str (str_of_nat (n div 10)) = n div 10" by simp
    with False show ?thesis
      by (subst str_of_nat.simps) (simp add: nat_of_str_snoc of_char_digit_char)
  qed
qed

lemma candidate_inj: "inj (\<lambda>k. b @ ''-'' @ str_of_nat k @ e)"
proof (rule injI)
  fix x y
  assume "b @ ''-'' @ str_of_nat x @ e = b @ ''-'' @ str_of_nat y @ e"
  then have "str_of_nat x = str_of_nat y" by simp
  then have "nat_of_str (str_of_nat x) = nat_of_str (str_of_nat y)" by simp
  then show "x = y" by (simp add: nat_of_str_of_nat)
qed

termination uniquify
proof (relation "measure (\<lambda>(fs, b, e, c, fn).
         2 * card {k. c < k \<and> b @ ''-'' @ str_of_nat k @ e \<in> set fs}
         + (if fn \<in> set fs then 1 else 0))", goal_cases)
  case 1
  show ?case by simp
next
  case (2 fs b e c fn)
  let ?cand = "\<lambda>k. b @ ''-'' @ str_of_nat k @ e"
  let ?S = "\<lambda>c. {k. c < k \<and> ?cand k \<in> set fs}"
  have fin: "finite (?S c)"
  proof -
    have "finite (?cand -` set fs)" using candidate_inj by (simp add: finite_vimageI)
    moreover have "?S c \<subseteq> ?cand -` set fs" by auto
    ultimately show ?thesis by (rule rev_finite_subset)
  qed
  have sub: "?S (c + 1) \<subseteq> ?S c" by auto
  show ?case
  proof (cases "?cand (c + 1) \<in> set fs")
    case True
    then have "c + 1 \<in> ?S c" "c + 1 \<notin> ?S (c + 1)" by auto
    with sub have "?S (c + 1) \<subset> ?S c" by blast
    with fin have "card (?S (c + 1)) < card (?S c)" by (rule psubset_card_mono)
    with 2 True show ?thesis by simp
  next
    case False
    have "card (?S (c + 1)) \<le> card (?S c)" using fin sub by (rule card_mono)
    with 2 False show ?thesis by simp
  qed
qed

declare uniquify.simps [simp del]

text \<open>
  The name a part is saved under and the counter afterwards: the derived name, made
  unique with the counter restarted from zero when it is already taken.
\<close>

definition unique_filename :: "string list \<Rightarrow> nat \<Rightarrow> string \<Rightarrow> string \<times> nat" where
  "unique_filename fs c filename =
     (if filename \<in> set fs
      then uniquify fs (fst (splitext filename)) (snd (splitext filename)) 0 filename
      else (filename, c))"

text \<open>\<open>"%s-%d%s" % (orig_basename, counter, orig_ext)\<close> for a filename and a counter.\<close>

definition suffixed_name :: "string \<Rightarrow> nat \<Rightarrow> string" where
  "suffixed_name filename k =
     fst (splitext filename) @ ''-'' @ str_of_nat k @ snd (splitext filename)"

text \<open>The name a part is saved under in a given state of the loop.\<close>

definition saved_name :: "environment \<Rightarrow> extraction \<Rightarrow> part \<Rightarrow> string" where
  "saved_name env st p =
     fst (unique_filename (filenames st) (counter_after_headers (counter st) p)
            (derive_filename env (counter_after_headers (counter st) p) p))"

text \<open>
  A run either raises, leaving the events so far, or goes on with a value and the events.
\<close>

type_synonym 'a outcome = "(error \<times> event list) + ('a \<times> event list)"

text \<open>
  One turn of the loop over \<open>msg.walk()\<close>. The index entry is stored before the file is
  opened; a failing \<open>open\<close> or \<open>write\<close> raises and ends the loop.
\<close>

definition extract_part ::
  "environment \<Rightarrow> string \<Rightarrow> extraction \<times> event list \<Rightarrow> part \<Rightarrow> extraction outcome" where
  "extract_part env tmpdir sw p =
     (let st = fst sw; w = snd sw
      in if is_multipart p \<or> bound_method_equals p ''message/rfc822'' then Inr (st, w)
         else
           let content_id = content_id_of p;
               c1 = counter_after_headers (counter st) p;
               htmls = (if get_content_subtype p = ''html''
                        then html_parts st @ [p] else html_parts st);
               derived = derive_filename env c1 p;
               (name, c2) = unique_filename (filenames st) c1 derived;
               names = List.insert name (filenames st);
               path = path_join tmpdir name;
               subs = (if truthy content_id
                       then dict_set (subfiles st) (the content_id) (path, p)
                       else subfiles st);
               st' = \<lparr> counter = c2, filenames = names, subfiles = subs, html_parts = htmls \<rparr>
           in if \<not> can_write env path then Inl (OSError path, w)
              else case get_payload_decoded p of
                     None \<Rightarrow> Inl (TypeError, w @ [Wrote path []])
                   | Some bytes \<Rightarrow> Inr (st', w @ [Wrote path bytes]))"

fun extract_parts ::
  "environment \<Rightarrow> string \<Rightarrow> extraction \<times> event list \<Rightarrow> part list \<Rightarrow> extraction outcome" where
  "extract_parts env tmpdir sw [] = Inr sw"
| "extract_parts env tmpdir sw (p # ps) =
     (case extract_part env tmpdir sw p of
        Inl e \<Rightarrow> Inl e
      | Inr sw' \<Rightarrow> extract_parts env tmpdir sw' ps)"

section \<open>Rewriting \<open>cid:\<close> references\<close>

text \<open>
  The pattern is \<open>'cid: ?' + sf_cid\<close>, matched ignoring case. The content-identifier is
  not escaped, so its characters are read as a regular expression. The model follows
  Python where every character of the identifier stands for itself or is a dot (any
  character but a newline), and where the replacement has no backslash; elsewhere it
  gives no result.
\<close>

datatype atom = Lit char | AnyChar

definition regex_metachars :: "char list" where
  "regex_metachars =
     [CHR 0x5C, CHR ''^'', CHR ''$'', CHR ''*'', CHR ''+'', CHR ''?'', CHR ''|'',
      CHR ''('', CHR '')'', CHR ''['', CHR '']'', CHR ''{'', CHR ''}'']"

definition compile_id :: "string \<Rightarrow> atom list option" where
  "compile_id sf_cid =
     (if \<exists>c \<in> set sf_cid. c \<in> set regex_metachars then None
      else Some (map (\<lambda>c. if c = CHR ''.'' then AnyChar else Lit c) sf_cid))"

fun atom_matches :: "atom \<Rightarrow> char \<Rightarrow> bool" where
  "atom_matches (Lit p) c = (lower_char p = lower_char c)"
| "atom_matches AnyChar c = (c \<noteq> CHR 0x0A)"

text \<open>Matching a sequence of atoms at the start of a text: the number of characters taken.\<close>

fun match_atoms :: "atom list \<Rightarrow> string \<Rightarrow> nat option" where
  "match_atoms [] s = Some 0"
| "match_atoms (a # as) [] = None"
| "match_atoms (a # as) (c # cs) =
     (if atom_matches a c then map_option Suc (match_atoms as cs) else None)"

text \<open>
  The whole pattern at the start of a text: \<open>cid:\<close>, then the space if there is one and
  the rest matches after it, otherwise the rest directly.
\<close>

definition match_cid :: "atom list \<Rightarrow> string \<Rightarrow> nat option" where
  "match_cid ident s =
     (case match_atoms (map Lit ''cid:'') s of
        None \<Rightarrow> None
      | Some n \<Rightarrow>
          (case (if startswith (drop n s) '' '' then match_atoms ident (drop (n + 1) s) else None) of
             Some k \<Rightarrow> Some (n + 1 + k)
           | None \<Rightarrow> map_option (\<lambda>k. n + k) (match_atoms ident (drop n s))))"

text \<open>\<open>re.sub\<close>: leftmost matches, none overlapping, each replaced.\<close>

function re_sub :: "atom list \<Rightarrow> string \<Rightarrow> string \<Rightarrow> string" where
  "re_sub ident repl [] = []"
| "re_sub ident repl (c # cs) =
     (case match_cid ident (c # cs) of
        Some n \<Rightarrow> repl @ re_sub ident repl (drop n (c # cs))
      | None \<Rightarrow> c # re_sub ident repl cs)"
  by pat_completeness auto

lemma match_atoms_length: "match_atoms as s = Some n \<Longrightarrow> n = length as"
  by (induction as s arbitrary: n rule: match_atoms.induct) (auto split: if_splits)

lemma match_cid_at_least: "match_cid ident s = Some n \<Longrightarrow> 4 \<le> n"
  by (auto simp: match_cid_def split: option.splits if_splits dest!: match_atoms_length)

termination re_sub
proof (relation "measure (\<lambda>(ident, repl, s). length s)", goal_cases)
  case 1
  show ?case by simp
next
  case (2 ident repl c cs)
  show ?case by simp
next
  case (3 ident repl c cs n)
  then have "4 \<le> n" by (rule match_cid_at_least)
  then show ?case by simp
qed

definition sub_cid :: "string \<Rightarrow> string \<Rightarrow> string \<Rightarrow> string option" where
  "sub_cid sf_cid repl htmlsrc =
     (case compile_id sf_cid of
        None \<Rightarrow> None
      | Some ident \<Rightarrow> if CHR 0x5C \<in> set repl then None else Some (re_sub ident repl htmlsrc))"

text \<open>The loop over \<open>subfiles\<close> for one HTML part: the text and \<open>embedded_parts\<close> after it.\<close>

fun substitute_all ::
  "(string \<times> string \<times> part) list \<Rightarrow> string list \<Rightarrow> string \<Rightarrow> (string \<times> string list) option" where
  "substitute_all [] embedded htmlsrc = Some (htmlsrc, embedded)"
| "substitute_all ((sf_cid, path, p) # rest) embedded htmlsrc =
     (case sub_cid sf_cid (''file://'' @ path) htmlsrc of
        None \<Rightarrow> None
      | Some newhtmlsrc \<Rightarrow>
          substitute_all rest
            (if sf_cid \<notin> set embedded \<and> newhtmlsrc \<noteq> htmlsrc
             then embedded @ [sf_cid] else embedded)
            newhtmlsrc)"

section \<open>External processes\<close>

text \<open>
  \<open>mysubprocess.call\<close> waits for the program and returns nothing: the exit status of
  \<open>subprocess.call\<close> is dropped and decides nothing afterwards;
  \<open>mysubprocess.call_bg\<close> starts it and does not wait. Both raise when the program
  cannot be started.
\<close>

fun call :: "environment \<Rightarrow> string list \<Rightarrow> event list \<Rightarrow> unit outcome" where
  "call env [] w = Inl (IndexError, w)"
| "call env (prog # args) w =
     (if can_start env prog
      then Inr ((), w @ [Called (prog # args) (exit_status env (prog # args))])
      else Inl (OSError prog, w))"

fun call_bg :: "environment \<Rightarrow> string list \<Rightarrow> event list \<Rightarrow> unit outcome" where
  "call_bg env [] w = Inl (IndexError, w)"
| "call_bg env (prog # args) w =
     (if can_start env prog then Inr ((), w @ [Spawned (prog # args)]) else Inl (OSError prog, w))"

definition delayed_browser :: "prefs \<Rightarrow> environment \<Rightarrow> string \<Rightarrow> event list \<Rightarrow> unit outcome" where
  "delayed_browser prefs env htmlfile w =
     call_bg env ([BROWSER prefs] @ BROWSER_ARGS prefs @ [''file://'' @ htmlfile]) w"

section \<open>The HTML parts\<close>

record rewriting =
  embedded_parts :: "string list"
  first_browser :: bool

text \<open>
  One turn of the loop over \<open>enumerate(html_parts)\<close>: open the output file, substitute,
  write, and call the browser on it.
\<close>

definition rewrite_html_part ::
  "prefs \<Rightarrow> environment \<Rightarrow> string \<Rightarrow> (string \<times> string \<times> part) list
     \<Rightarrow> rewriting \<times> event list \<Rightarrow> nat \<Rightarrow> part \<Rightarrow> rewriting outcome" where
  "rewrite_html_part prefs env tmpdir subs rw i html_part =
     (let r = fst rw; w = snd rw;
          htmlfile = path_join tmpdir (''viewhtml'' @ zero_pad 2 i @ ''.html'')
      in if \<not> can_write env htmlfile then Inl (OSError htmlfile, w)
         else case get_payload_decoded html_part of
                None \<Rightarrow> Inl (AttributeError, w @ [Wrote htmlfile []])
              | Some bytes \<Rightarrow>
                  (case substitute_all subs (embedded_parts r) (decode_text env bytes) of
                     None \<Rightarrow> Inl (RegexOutsideModel, w @ [Wrote htmlfile []])
                   | Some (htmlsrc, embedded) \<Rightarrow>
                       (case call_bg env
                               ([BROWSER prefs]
                                @ (if first_browser r then BROWSER_FIRST_ARGS prefs
                                   else BROWSER_ARGS prefs)
                                @ [''file://'' @ htmlfile])
                               (w @ [Wrote htmlfile (encode_text env htmlsrc)]) of
                          Inl e \<Rightarrow> Inl e
                        | Inr (u, w') \<Rightarrow>
                            Inr (\<lparr> embedded_parts = embedded, first_browser = False \<rparr>, w'))))"

fun rewrite_html_parts ::
  "prefs \<Rightarrow> environment \<Rightarrow> string \<Rightarrow> (string \<times> string \<times> part) list
     \<Rightarrow> rewriting \<times> event list \<Rightarrow> nat \<Rightarrow> part list \<Rightarrow> rewriting outcome" where
  "rewrite_html_parts prefs env tmpdir subs rw i [] = Inr rw"
| "rewrite_html_parts prefs env tmpdir subs rw i (h # hs) =
     (case rewrite_html_part prefs env tmpdir subs rw i h of
        Inl e \<Rightarrow> Inl e
      | Inr rw' \<Rightarrow> rewrite_html_parts prefs env tmpdir subs rw' (Suc i) hs)"

section \<open>The parts not embedded\<close>

text \<open>A conversion followed by the browser on its output.\<close>

definition convert_and_view ::
  "prefs \<Rightarrow> environment \<Rightarrow> string list \<Rightarrow> string \<Rightarrow> event list \<Rightarrow> unit outcome" where
  "convert_and_view prefs env cmd htmlfile w =
     (case call env cmd w of
        Inl e \<Rightarrow> Inl e
      | Inr (u, w') \<Rightarrow> delayed_browser prefs env htmlfile w')"

text \<open>
  The test \<open>subtype == "pdf" or partfile.endswith(pdf)\<close>: the name \<open>pdf\<close> is not
  defined, so the second operand raises whenever the first is false.
\<close>

definition pdf_policy ::
  "prefs \<Rightarrow> environment \<Rightarrow> part \<Rightarrow> string \<Rightarrow> string \<times> string \<Rightarrow> event list \<Rightarrow> unit outcome" where
  "pdf_policy prefs env p partfile fileparts w =
     (if get_content_subtype p = ''pdf''
      then if CONVERT_PDF_TO_HTML prefs
           then convert_and_view prefs env [''pdftohtml'', ''-s'', partfile]
                  (fst fileparts @ ''-html.html'') w
           else delayed_browser prefs env partfile w
      else Inl (NameError ''pdf'', w))"

definition dispatch_application ::
  "prefs \<Rightarrow> environment \<Rightarrow> part \<Rightarrow> string \<Rightarrow> string \<times> string \<Rightarrow> event list \<Rightarrow> unit outcome" where
  "dispatch_application prefs env p partfile fileparts w =
     (let htmlfilename = fst fileparts @ ''.html''
      in if get_content_subtype p = ''msword'' \<and> USE_WVHTML_FOR_DOC prefs
         then convert_and_view prefs env [''wvHtml'', partfile, htmlfilename] htmlfilename w
         else if get_content_subtype p
                   = ''vnd.openxmlformats-officedocument.wordprocessingml.document''
                 \<or> get_content_subtype p = ''msword''
                 \<or> get_content_subtype p = ''vnd.oasis.opendocument.text''
         then convert_and_view prefs env
                [''unoconv'', ''-f'', ''html'', ''-T'', UNOCONV_STARTUP_TIME prefs,
                 ''-o'', htmlfilename, partfile]
                htmlfilename w
         else if get_content_subtype p = ''vnd.ms-powerpoint''
                 \<or> get_content_subtype p
                     = ''vnd.openxmlformats-officedocument.presentationml.presentation''
         then (let pdffile = fst fileparts @ ''.pdf''
               in case call env [''unoconv'', ''-f'', ''pdf'', ''-o'', pdffile, partfile] w of
                    Inl e \<Rightarrow> Inl e
                  | Inr (u, w') \<Rightarrow> pdf_policy prefs env p pdffile fileparts w')
         else pdf_policy prefs env p partfile fileparts w)"

text \<open>One turn of the loop over \<open>subfiles\<close> after the HTML parts.\<close>

definition dispatch_entry ::
  "prefs \<Rightarrow> environment \<Rightarrow> string list \<Rightarrow> event list \<Rightarrow> string \<times> string \<times> part \<Rightarrow> unit outcome" where
  "dispatch_entry prefs env embedded w entry =
     (let sfid = fst entry; partfile = fst (snd entry); p = snd (snd entry);
          fileparts = splitext partfile
      in if sfid \<in> set embedded then Inr ((), w)
         else if get_content_maintype p = ''application''
         then dispatch_application prefs env p partfile fileparts w
         else Inr ((), w))"

fun dispatch_subfiles ::
  "prefs \<Rightarrow> environment \<Rightarrow> string list \<Rightarrow> event list \<Rightarrow> (string \<times> string \<times> part) list
     \<Rightarrow> unit outcome" where
  "dispatch_subfiles prefs env embedded w [] = Inr ((), w)"
| "dispatch_subfiles prefs env embedded w (entry # rest) =
     (case dispatch_entry prefs env embedded w entry of
        Inl e \<Rightarrow> Inl e
      | Inr (u, w') \<Rightarrow> dispatch_subfiles prefs env embedded w' rest)"

section \<open>The whole run\<close>

text \<open>
  Loading. The argument \<open>f\<close> comes with what it names on disk, if anything. A maildir
  that lists nothing leaves \<open>msg\<close> at \<open>None\<close>; one that lists something opens whatever
  \<open>find_first_maildir_file\<close> returns, and \<open>open(None)\<close> raises \<open>TypeError\<close>.
\<close>

definition load_message ::
  "environment \<Rightarrow> string \<Rightarrow> fsnode option \<Rightarrow> string \<Rightarrow> error + part option" where
  "load_message env f node stdin =
     (if f \<noteq> [] then
        (case node of
           None \<Rightarrow> Inl (OSError f)
         | Some (RegFile bytes) \<Rightarrow> Inr (Some (parse_message env bytes))
         | Some (Directory es) \<Rightarrow>
             (case es of
                [] \<Rightarrow> Inr None
              | e # es' \<Rightarrow>
                  (case find_first_maildir_file f (Directory es) of
                     None \<Rightarrow> Inl TypeError
                   | Some path \<Rightarrow>
                       (case read_below f (Directory es) path of
                          None \<Rightarrow> Inl (OSError path)
                        | Some text \<Rightarrow> Inr (Some (parse_message env text))))))
      else Inr (Some (parse_message env stdin)))"

text \<open>Everything after loading: extraction, the HTML parts, the remaining parts.\<close>

definition process_message :: "prefs \<Rightarrow> environment \<Rightarrow> string \<Rightarrow> part \<Rightarrow> unit outcome" where
  "process_message prefs env tmpdir msg =
     (case extract_parts env tmpdir (initial_extraction, []) (walk msg) of
        Inl e \<Rightarrow> Inl e
      | Inr (st, w) \<Rightarrow>
          (case rewrite_html_parts prefs env tmpdir (subfiles st)
                  (\<lparr> embedded_parts = [], first_browser = True \<rparr>, w) 0 (html_parts st) of
             Inl e \<Rightarrow> Inl e
           | Inr (r, w') \<Rightarrow> dispatch_subfiles prefs env (embedded_parts r) w' (subfiles st)))"

definition view_html_message ::
  "prefs \<Rightarrow> environment \<Rightarrow> string \<Rightarrow> fsnode option \<Rightarrow> string \<Rightarrow> string \<Rightarrow> unit outcome" where
  "view_html_message prefs env f node stdin tmpdir =
     (case load_message env f node stdin of
        Inl e \<Rightarrow> Inl (e, [])
      | Inr None \<Rightarrow> Inl (AttributeError, [])
      | Inr (Some msg) \<Rightarrow> process_message prefs env tmpdir msg)"

section \<open>Reading the events\<close>

fun written_paths :: "event list \<Rightarrow> string list" where
  "written_paths [] = []"
| "written_paths (Wrote path bytes # w) = path # written_paths w"
| "written_paths (Called cmd status # w) = written_paths w"
| "written_paths (Spawned cmd # w) = written_paths w"

fun spawned :: "event list \<Rightarrow> string list list" where
  "spawned [] = []"
| "spawned (Wrote path bytes # w) = spawned w"
| "spawned (Called cmd status # w) = spawned w"
| "spawned (Spawned cmd # w) = cmd # spawned w"

text \<open>The events of a run, raised or not.\<close>

fun events :: "'a outcome \<Rightarrow> event list" where
  "events (Inl (e, w)) = w"
| "events (Inr (x, w)) = w"

text \<open>The files written, with their bytes.\<close>

fun writes :: "event list \<Rightarrow> (string \<times> string) list" where
  "writes [] = []"
| "writes (Wrote path bytes # w) = (path, bytes) # writes w"
| "writes (Called cmd status # w) = writes w"
| "writes (Spawned cmd # w) = writes w"

text \<open>
  The paths written so far are pairwise different, and each is the working directory
  joined with a name of the run's filename set.
\<close>

definition names_ok :: "string \<Rightarrow> extraction \<times> event list \<Rightarrow> bool" where
  "names_ok tmpdir sw \<longleftrightarrow>
     distinct (written_paths (snd sw))
     \<and> set (written_paths (snd sw)) \<subseteq> (\<lambda>n. dir_prefix tmpdir @ n) ` set (filenames (fst sw))"

section \<open>Example inputs\<close>

text \<open>
  An environment for the examples: a small \<open>mimetypes\<close> table, identity codecs, every
  program starts and exits with status 0, and a path ending in a slash cannot be
  written (it names a directory).
\<close>

definition example_env :: environment where
  "example_env =
     \<lparr> parse_message = (\<lambda>text. Leaf \<lparr> headers = [], maintype = ''text'', subtype = ''plain'',
                                        declared_filename = None \<rparr> text),
       guess_extension =
         (\<lambda>t. if t = ''text/html'' then Some ''.html''
              else if t = ''text/plain'' then Some ''.txt''
              else if t = ''image/png'' then Some ''.png''
              else if t = ''application/pdf'' then Some ''.pdf''
              else if t = ''application/msword'' then Some ''.doc''
              else None),
       can_write = (\<lambda>path. \<not> endswith path ''/''),
       can_start = (\<lambda>prog. True),
       exit_status = (\<lambda>cmd. 0),
       decode_text = (\<lambda>bytes. bytes),
       encode_text = (\<lambda>text. text) \<rparr>"

definition mk_info :: "(string \<times> string) list \<Rightarrow> string \<Rightarrow> string \<Rightarrow> string option \<Rightarrow> part_info" where
  "mk_info h m s f = \<lparr> headers = h, maintype = m, subtype = s, declared_filename = f \<rparr>"

text \<open>Two attachments that both declare the filename \<open>image.png\<close>.\<close>

definition image_a :: part where
  "image_a = Leaf (mk_info [] ''image'' ''png'' (Some ''image.png'')) ''A''"

definition image_b :: part where
  "image_b = Leaf (mk_info [] ''image'' ''png'' (Some ''image.png'')) ''B''"

definition two_images :: part where
  "two_images = Multi (mk_info [] ''multipart'' ''mixed'' None) [image_a, image_b]"

text \<open>An attachment whose declared filename has no character that sanitization keeps.\<close>

definition unnamed_attachment :: part where
  "unnamed_attachment =
     Leaf (mk_info [] ''application'' ''octet-stream'' (Some ''???'')) ''BYTES''"

text \<open>
  A container as the specification and the comment at the head of the loop class it, by
  media type: \<open>multipart/*\<close> or \<open>message/rfc822\<close>. The loop itself does not use this test;
  it asks \<open>is_multipart()\<close>, whether the part has sub-parts.
\<close>

definition declared_container :: "part \<Rightarrow> bool" where
  "declared_container p \<longleftrightarrow>
     get_content_maintype p = ''multipart'' \<or> get_content_type p = ''message/rfc822''"

text \<open>
  What the email package's parser guarantees and the datatype does not: it attaches the
  embedded message of a \<open>message/rfc822\<close> part as a sub-part, so such a part is always
  a multipart.
\<close>

definition as_parsed :: "part \<Rightarrow> bool" where
  "as_parsed msg \<longleftrightarrow>
     (\<forall>p \<in> set (walk msg). get_content_type p = ''message/rfc822'' \<longrightarrow> is_multipart p)"

text \<open>The byte payloads of the parts that have one, in order.\<close>

fun payloads :: "part list \<Rightarrow> string list" where
  "payloads [] = []"
| "payloads (Leaf i b # ps) = b # payloads ps"
| "payloads (Multi i qs # ps) = payloads ps"

text \<open>
  A part declared \<open>multipart/mixed\<close> with no boundary parameter: the parser keeps its
  body as a byte payload and gives it no sub-parts. A message that holds a text part and
  such a part.
\<close>

definition boundaryless_multipart :: part where
  "boundaryless_multipart =
     Leaf (mk_info [(''Content-Type'', ''multipart/mixed'')] ''multipart'' ''mixed'' None)
       ''no boundary here''"

definition message_with_boundaryless_part :: part where
  "message_with_boundaryless_part =
     Multi (mk_info [] ''multipart'' ''mixed'' None)
       [Leaf (mk_info [] ''text'' ''plain'' None) ''HELLO'', boundaryless_multipart]"

text \<open>A text part and a forwarded message inside a multipart.\<close>

definition forwarded_message :: part where
  "forwarded_message =
     Multi (mk_info [] ''multipart'' ''mixed'' None)
       [Leaf (mk_info [] ''text'' ''plain'' None) ''HELLO'',
        Multi (mk_info [] ''message'' ''rfc822'' None)
          [Leaf (mk_info [] ''text'' ''plain'' None) ''INNER'']]"

text \<open>An inline image with a content-id and no declared filename, and a plain text part.\<close>

definition inline_image :: part where
  "inline_image = Leaf (mk_info [(''Content-ID'', ''<a@b>'')] ''image'' ''png'' None) ''PNG''"

definition plain_part :: part where
  "plain_part = Leaf (mk_info [] ''text'' ''plain'' None) ''TEXT''"

text \<open>
  Whether a directory tree holds a file whose name does not start with a dot, at any
  depth (the directories' own names do not matter to the walk).
\<close>

fun has_visible_file :: "fsnode \<Rightarrow> bool"
  and has_visible_entry :: "(string \<times> fsnode) list \<Rightarrow> bool"
where
  "has_visible_file (RegFile c) = False"
| "has_visible_file (Directory es) = has_visible_entry es"
| "has_visible_entry [] = False"
| "has_visible_entry ((n, RegFile c) # es) = (\<not> startswith n ''.'' \<or> has_visible_entry es)"
| "has_visible_entry ((n, Directory ds) # es) = (has_visible_file (Directory ds) \<or> has_visible_entry es)"

text \<open>A maildir with a lock file, one hidden file under \<open>cur\<close> and an empty \<open>new\<close>.\<close>

definition hidden_only_maildir :: fsnode where
  "hidden_only_maildir =
     Directory [(''.lock'', RegFile ''''), (''cur'', Directory [(''.hidden'', RegFile ''x'')]), (''new'', Directory [])]"



text \<open>
  A Word attachment; a message whose first attachment cannot be saved (its name is
  sanitized to nothing) and whose second is the Word attachment; a PDF with a content-id.
\<close>

definition word_attachment :: part where
  "word_attachment = Leaf (mk_info [] ''application'' ''msword'' (Some ''a.doc'')) ''DOC''"


definition pdf_attachment :: part where
  "pdf_attachment =
     Leaf (mk_info [(''Content-ID'', ''<doc1>'')] ''application'' ''pdf'' None) ''PDF''"

text \<open>
  An HTML part that refers to \<open>cid:img10\<close>, in a message with two images whose
  content-ids are \<open>img1\<close> and \<open>img10\<close>.
\<close>

definition html_ref10 :: part where
  "html_ref10 =
     Leaf (mk_info [(''Content-Type'', ''text/html'')] ''text'' ''html'' None)
       ''<img src=cid:img10>''"

definition image_1 :: part where
  "image_1 = Leaf (mk_info [(''Content-ID'', ''<img1>'')] ''image'' ''png'' None) ''ONE''"

definition image_10 :: part where
  "image_10 = Leaf (mk_info [(''Content-Id'', ''<img10>'')] ''image'' ''png'' None) ''TEN''"

definition prefix_message :: part where
  "prefix_message =
     Multi (mk_info [] ''multipart'' ''related'' None) [html_ref10, image_1, image_10]"

text \<open>
  A text body with a Word attachment that has no content-id; the same with a content-id.
\<close>

definition word_message :: part where
  "word_message =
     Multi (mk_info [] ''multipart'' ''mixed'' None)
       [Leaf (mk_info [] ''text'' ''plain'' None) ''See attached.'', word_attachment]"

definition word_with_cid :: part where
  "word_with_cid =
     Leaf (mk_info [(''Content-ID'', ''<doc@x>'')] ''application'' ''msword'' (Some ''a.doc''))
       ''DOC''"

definition word_message_cid :: part where
  "word_message_cid =
     Multi (mk_info [] ''multipart'' ''mixed'' None)
       [Leaf (mk_info [] ''text'' ''plain'' None) ''See attached.'', word_with_cid]"

text \<open>Every entry of the index is under the content-id, not empty, of its own part.\<close>

definition indexed_by_content_id :: "(string \<times> string \<times> part) list \<Rightarrow> bool" where
  "indexed_by_content_id subs \<longleftrightarrow>
     (\<forall>entry \<in> set subs. content_id_of (snd (snd entry)) = Some (fst entry) \<and> fst entry \<noteq> [])"

text \<open>
  The output file of the i-th HTML part, a call of the browser on a file, and the calls
  that carry \<open>BROWSER_ARGS\<close>.
\<close>

definition htmlfile_of :: "string \<Rightarrow> nat \<Rightarrow> string" where
  "htmlfile_of tmpdir i = path_join tmpdir (''viewhtml'' @ zero_pad 2 i @ ''.html'')"

definition browser_cmd :: "prefs \<Rightarrow> string list \<Rightarrow> string \<Rightarrow> string list" where
  "browser_cmd prefs args file = [BROWSER prefs] @ args @ [''file://'' @ file]"

definition later_call :: "prefs \<Rightarrow> string list \<Rightarrow> bool" where
  "later_call prefs cmd \<longleftrightarrow> (\<exists>file. cmd = browser_cmd prefs (BROWSER_ARGS prefs) file)"

text \<open>What a step adds to the browser calls: nothing, or calls with the later arguments.\<close>

definition adds_later_calls :: "prefs \<Rightarrow> event list \<Rightarrow> unit outcome \<Rightarrow> bool" where
  "adds_later_calls prefs w r \<longleftrightarrow>
     (\<exists>extra. spawned (events r) = spawned w @ extra \<and> (\<forall>cmd \<in> set extra. later_call prefs cmd))"

text \<open>Two texts that are equal when letter case is ignored.\<close>

definition same_ignoring_case :: "string \<Rightarrow> string \<Rightarrow> bool" where
  "same_ignoring_case a b \<longleftrightarrow> map lower_char a = map lower_char b"

text \<open>An HTML body whose declared filename is the name the rewritten HTML is saved under.\<close>

definition html_named_like_output :: part where
  "html_named_like_output =
     Leaf (mk_info [] ''text'' ''html'' (Some ''viewhtml00.html'')) ''<p>hello</p>''"

text \<open>A zip attachment with a content-id, followed by the Word attachment with one.\<close>

definition zip_attachment :: part where
  "zip_attachment =
     Leaf (mk_info [(''Content-ID'', ''<z>'')] ''application'' ''zip'' None) ''ZIP''"

definition zip_then_word :: part where
  "zip_then_word =
     Multi (mk_info [] ''multipart'' ''mixed'' None) [zip_attachment, word_with_cid]"

section \<open>Properties of the helpers\<close>

lemma sanitize_filename_idem: "sanitize_filename (sanitize_filename s) = sanitize_filename s"
  by (simp add: sanitize_filename_def)

lemma sanitize_filename_no_slash: "CHR ''/'' \<notin> set (sanitize_filename s)"
  by (simp add: sanitize_filename_def isalpha_def isdigit_def)

lemma sanitize_filename_empty:
  "\<forall>c \<in> set s. \<not> isalpha c \<and> \<not> isdigit c \<and> c \<notin> set ''-_.'' \<Longrightarrow> sanitize_filename s = []"
  by (induction s) (auto simp: sanitize_filename_def)

lemma startswith_slash: "startswith s ''/'' \<longleftrightarrow> (\<exists>r. s = CHR ''/'' # r)"
  by (cases s) (auto simp: startswith_def)

lemma path_join_relative:
  "\<not> startswith name ''/'' \<Longrightarrow> path_join tmpdir name = dir_prefix tmpdir @ name"
  by (simp add: path_join_def dir_prefix_def)

lemma path_join_empty: "path_join tmpdir [] = dir_prefix tmpdir"
  by (simp add: path_join_relative startswith_slash)

lemma splitext_append: "fst (splitext p) @ snd (splitext p) = p"
  by (auto simp: splitext_def Let_def split: option.splits)

lemma written_paths_append [simp]: "written_paths (w @ v) = written_paths w @ written_paths v"
  by (induction w rule: written_paths.induct) auto

lemma writes_append [simp]: "writes (w @ v) = writes w @ writes v"
  by (induction w rule: writes.induct) auto

lemma spawned_append [simp]: "spawned (w @ v) = spawned w @ spawned v"
  by (induction w rule: spawned.induct) auto

section \<open>Unique filenames\<close>

text \<open>
  What the \<open>while\<close> loop returns: a name that is not taken; the name it was given if that
  one is free; otherwise the first free one among base-1, base-2, and so on, counted
  from the counter it starts with.
\<close>

lemma uniquify_spec:
  "case uniquify fs b e c fn of (n, k) \<Rightarrow>
     n \<notin> set fs
     \<and> (fn \<notin> set fs \<longrightarrow> n = fn \<and> k = c)
     \<and> (fn \<in> set fs \<longrightarrow> c < k \<and> n = b @ ''-'' @ str_of_nat k @ e
          \<and> (\<forall>j. c < j \<and> j < k \<longrightarrow> b @ ''-'' @ str_of_nat j @ e \<in> set fs))"
proof (induction fs b e c fn rule: uniquify.induct)
  case (1 fs b e c fn)
  show ?case
  proof (cases "fn \<in> set fs")
    case False
    then show ?thesis by (simp add: uniquify.simps)
  next
    case True
    let ?next = "b @ ''-'' @ str_of_nat (c + 1) @ e"
    obtain n k where r: "uniquify fs b e (c + 1) ?next = (n, k)" by force
    with 1 True have ih:
      "n \<notin> set fs"
      "?next \<notin> set fs \<longrightarrow> n = ?next \<and> k = c + 1"
      "?next \<in> set fs \<longrightarrow> c + 1 < k \<and> n = b @ ''-'' @ str_of_nat k @ e
          \<and> (\<forall>j. c + 1 < j \<and> j < k \<longrightarrow> b @ ''-'' @ str_of_nat j @ e \<in> set fs)"
      by auto
    have eq: "uniquify fs b e c fn = (n, k)"
      using True r by (subst uniquify.simps) simp
    show ?thesis
    proof (cases "?next \<in> set fs")
      case False
      with ih eq True show ?thesis by auto
    next
      case nt: True
      have "b @ ''-'' @ str_of_nat j @ e \<in> set fs" if "c < j" "j < k" for j
      proof (cases "j = c + 1")
        case True
        with nt show ?thesis by simp
      next
        case False
        with that have "c + 1 < j" by simp
        with ih(3) nt that show ?thesis by blast
      qed
      with ih eq True nt show ?thesis by auto
    qed
  qed
qed

lemma unique_filename_not_member: "fst (unique_filename fs c filename) \<notin> set fs"
  using uniquify_spec [where fs = fs and b = "fst (splitext filename)"
      and e = "snd (splitext filename)" and c = 0 and fn = filename]
  by (auto simp: unique_filename_def split: prod.splits)

lemma unique_filename_collision:
  assumes "filename \<in> set fs"
  shows "\<exists>k\<ge>1. unique_filename fs c filename = (suffixed_name filename k, k)
           \<and> suffixed_name filename k \<notin> set fs
           \<and> (\<forall>j. 1 \<le> j \<and> j < k \<longrightarrow> suffixed_name filename j \<in> set fs)"
  using assms uniquify_spec [where fs = fs and b = "fst (splitext filename)"
      and e = "snd (splitext filename)" and c = 0 and fn = filename]
  by (auto simp: unique_filename_def suffixed_name_def split: prod.splits)

lemma derive_filename_relative: "\<not> startswith (derive_filename env c p) ''/''"
proof -
  have "\<not> startswith (sanitize_filename s) ''/''" for s
    using sanitize_filename_no_slash [of s] by (auto simp: startswith_slash)
  then show ?thesis by (simp add: derive_filename_def startswith_slash)
qed

lemma suffixed_name_relative:
  assumes "\<not> startswith filename ''/''"
  shows "\<not> startswith (suffixed_name filename k) ''/''"
proof (cases "fst (splitext filename)")
  case Nil
  then show ?thesis by (simp add: suffixed_name_def startswith_slash)
next
  case (Cons x xs)
  with splitext_append [of filename] have "filename = x # xs @ snd (splitext filename)" by simp
  with assms have "x \<noteq> CHR ''/''" by (auto simp: startswith_slash)
  with Cons show ?thesis by (simp add: suffixed_name_def startswith_slash)
qed

lemma unique_filename_relative:
  assumes "\<not> startswith filename ''/''"
  shows "\<not> startswith (fst (unique_filename fs c filename)) ''/''"
proof (cases "filename \<in> set fs")
  case True
  from unique_filename_collision [OF True, of c] suffixed_name_relative [OF assms]
  show ?thesis by auto
next
  case False
  with assms show ?thesis by (simp add: unique_filename_def)
qed

section \<open>The extraction loop\<close>

text \<open>The name a part that is not a multipart is saved under, from the state before it.\<close>

lemma extract_part_leaf:
  "extract_part env tmpdir (st, w) (Leaf i b) =
     (let c1 = counter_after_headers (counter st) (Leaf i b);
          name = saved_name env st (Leaf i b);
          path = path_join tmpdir name
      in if can_write env path
         then Inr (\<lparr> counter = snd (unique_filename (filenames st) c1
                                    (derive_filename env c1 (Leaf i b))),
                     filenames = List.insert name (filenames st),
                     subfiles = (if truthy (content_id_of (Leaf i b))
                                 then dict_set (subfiles st) (the (content_id_of (Leaf i b)))
                                        (path, Leaf i b)
                                 else subfiles st),
                     html_parts = (if get_content_subtype (Leaf i b) = ''html''
                                   then html_parts st @ [Leaf i b] else html_parts st) \<rparr>,
                   w @ [Wrote path b])
         else Inl (OSError path, w))"
  by (simp add: extract_part_def saved_name_def Let_def bound_method_equals_def
           split: prod.splits)

lemma extract_part_multi: "extract_part env tmpdir sw (Multi i ps) = Inr sw"
  by (simp add: extract_part_def)

lemma saved_name_fresh: "saved_name env st p \<notin> set (filenames st)"
  by (simp add: saved_name_def unique_filename_not_member)

lemma saved_name_relative: "\<not> startswith (saved_name env st p) ''/''"
  unfolding saved_name_def
  by (rule unique_filename_relative) (rule derive_filename_relative)

text \<open>
  The invariant of the loop: the paths written so far are pairwise different, and each is
  the working directory joined with a name of \<open>filenames\<close>.
\<close>

lemma extract_part_names_ok:
  assumes "names_ok tmpdir sw" and "extract_part env tmpdir sw p = Inr sw'"
  shows "names_ok tmpdir sw'
     \<and> length (written_paths (snd sw'))
         = length (written_paths (snd sw)) + (if is_multipart p then 0 else 1)"
proof (cases p)
  case (Multi i ps)
  with assms show ?thesis by (simp add: extract_part_multi)
next
  case (Leaf i b)
  obtain st w where sw: "sw = (st, w)" by (cases sw)
  let ?name = "saved_name env st p"
  have fresh: "?name \<notin> set (filenames st)" by (rule saved_name_fresh)
  have rel: "path_join tmpdir ?name = dir_prefix tmpdir @ ?name"
    by (rule path_join_relative) (rule saved_name_relative)
  from assms(2) have sw': "set (filenames (fst sw')) = insert ?name (set (filenames st))"
      "snd sw' = w @ [Wrote (path_join tmpdir ?name) b]"
    unfolding sw Leaf extract_part_leaf by (auto simp: Let_def split: if_splits)
  have "dir_prefix tmpdir @ ?name \<notin> set (written_paths w)"
    using assms(1) fresh by (auto simp: names_ok_def sw)
  with assms(1) sw' rel show ?thesis
    by (auto simp: names_ok_def sw Leaf)
qed

lemma extract_parts_names_ok:
  assumes "names_ok tmpdir sw" and "extract_parts env tmpdir sw ps = Inr sw'"
  shows "names_ok tmpdir sw'
     \<and> length (written_paths (snd sw'))
         = length (written_paths (snd sw)) + length (filter (\<lambda>p. \<not> is_multipart p) ps)"
  using assms
proof (induction ps arbitrary: sw)
  case Nil
  then show ?case by simp
next
  case (Cons p ps)
  from Cons.prems(2) obtain sw1 where
    s1: "extract_part env tmpdir sw p = Inr sw1" and
    s2: "extract_parts env tmpdir sw1 ps = Inr sw'"
    by (auto split: sum.splits)
  from extract_part_names_ok [OF Cons.prems(1) s1] Cons.IH [OF _ s2]
  show ?case by auto
qed

text \<open>Multiparts pass through the loop without any effect.\<close>

lemma extract_parts_skip_multipart:
  "extract_parts env tmpdir sw ps
     = extract_parts env tmpdir sw (filter (\<lambda>p. \<not> is_multipart p) ps)"
proof (induction ps arbitrary: sw)
  case Nil
  show ?case by simp
next
  case (Cons p ps)
  show ?case
  proof (cases p)
    case (Multi i qs)
    with Cons show ?thesis by (simp add: extract_part_multi)
  next
    case (Leaf i b)
    with Cons show ?thesis by (simp split: sum.splits)
  qed
qed

lemma payloads_append [simp]: "payloads (ps @ qs) = payloads ps @ payloads qs"
  by (induction ps rule: payloads.induct) auto

lemma payloads_not_multipart: "payloads (filter (\<lambda>p. \<not> is_multipart p) ps) = payloads ps"
  by (induction ps rule: payloads.induct) auto

lemma extract_part_writes:
  "extract_part env tmpdir (st, w) p = Inr (st', w') \<Longrightarrow>
     map snd (writes w') = map snd (writes w) @ payloads [p]"
  by (cases p) (auto simp: extract_part_leaf extract_part_multi Let_def split: if_splits)

text \<open>The only error of a turn is the failed write, and it leaves the events as they were.\<close>

lemma extract_part_raises:
  "extract_part env tmpdir (st, w) p = Inl (e, w') \<Longrightarrow>
     w' = w \<and> e = OSError (path_join tmpdir (saved_name env st p)) \<and> \<not> is_multipart p"
  by (cases p) (auto simp: extract_part_leaf extract_part_multi Let_def split: if_splits)

lemma extract_parts_writes:
  "extract_parts env tmpdir (st, w) ps = Inr (st', w') \<Longrightarrow>
     map snd (writes w') = map snd (writes w) @ payloads ps"
proof (induction ps arbitrary: st w)
  case Nil
  then show ?case by simp
next
  case (Cons p ps)
  from Cons.prems obtain st1 w1 where
    s1: "extract_part env tmpdir (st, w) p = Inr (st1, w1)" and
    s2: "extract_parts env tmpdir (st1, w1) ps = Inr (st', w')"
    by (auto split: sum.splits)
  from extract_part_writes [OF s1] Cons.IH [OF s2]
  have "map snd (writes w') = (map snd (writes w) @ payloads [p]) @ payloads ps" by simp
  also have "\<dots> = map snd (writes w) @ payloads (p # ps)"
    by (cases p) simp_all
  finally show ?case .
qed

lemma extract_parts_raises:
  "extract_parts env tmpdir (st, w) ps = Inl (e, w') \<Longrightarrow>
     (\<exists>path. e = OSError path)
     \<and> prefix (map snd (writes w')) (map snd (writes w) @ payloads ps)"
proof (induction ps arbitrary: st w)
  case Nil
  then show ?case by simp
next
  case (Cons p ps)
  show ?case
  proof (cases "extract_part env tmpdir (st, w) p")
    case (Inl ew)
    with Cons.prems have "ew = (e, w')" by simp
    with Inl extract_part_raises [of env tmpdir st w p e w'] show ?thesis by auto
  next
    case (Inr sw1)
    obtain st1 w1 where sw1: "sw1 = (st1, w1)" by (cases sw1)
    from Inr Cons.prems sw1 have s2: "extract_parts env tmpdir (st1, w1) ps = Inl (e, w')"
      by simp
    from extract_part_writes [OF Inr [unfolded sw1]]
    have w1: "map snd (writes w1) = map snd (writes w) @ payloads [p]" .
    have pp: "payloads [p] @ payloads ps = payloads (p # ps)" by (cases p) simp_all
    from Cons.IH [OF s2] w1 pp show ?thesis by auto
  qed
qed

lemma as_parsed_rfc822:
  "as_parsed msg \<Longrightarrow> p \<in> set (walk msg) \<Longrightarrow> \<not> is_multipart p \<Longrightarrow>
     get_content_type p \<noteq> ''message/rfc822''"
  by (auto simp: as_parsed_def)

lemma nat_of_str_zeros: "nat_of_str (replicate k (CHR ''0'') @ s) = nat_of_str s"
proof -
  have "foldl (\<lambda>acc c. 10 * acc + (of_char c - 48)) (0::nat) (replicate k (CHR ''0'')) = 0"
    by (induction k) simp_all
  then show ?thesis by (simp add: nat_of_str_def)
qed

lemma zero_pad_value: "nat_of_str (zero_pad w n) = n"
  by (simp add: zero_pad_def nat_of_str_zeros nat_of_str_of_nat)

lemma zero_pad_length: "w \<le> length (zero_pad w n)"
  by (simp add: zero_pad_def)

section \<open>The maildir walk finds a file exactly when there is a visible one\<close>

lemma first_visible_None: "first_visible root fs = None \<longleftrightarrow> (\<forall>f \<in> set fs. startswith f ''.'')"
  by (induction fs) auto

lemma first_visible_Some:
  "first_visible root fs = Some x \<Longrightarrow> \<exists>f \<in> set fs. \<not> startswith f ''.''"
  by (induction fs) (auto split: if_splits)

lemma find_in_walk_append:
  "find_in_walk (xs @ ys) = (case find_in_walk xs of Some p \<Rightarrow> Some p | None \<Rightarrow> find_in_walk ys)"
  by (induction xs rule: find_in_walk.induct) (auto split: option.splits)

lemma find_in_walk_None:
  "find_in_walk xs = None \<longleftrightarrow> (\<forall>(root, dirs, files) \<in> set xs. \<forall>f \<in> set files. startswith f ''.'')"
  by (induction xs rule: find_in_walk.induct) (auto split: option.splits simp: first_visible_None dest: first_visible_Some)

lemma visible_walk:
  "find_in_walk (os_walk d node) = None \<longleftrightarrow> \<not> has_visible_file node"
  "find_in_walk (os_walk_subdirs d es) = None \<and> (\<forall>f \<in> set (file_names es). startswith f ''.'')
     \<longleftrightarrow> \<not> has_visible_entry es"
proof (induction d node and d es rule: os_walk_os_walk_subdirs.induct)
  case (1 d c)
  show ?case by simp
next
  case (2 d es)
  then show ?case
    by (auto simp: first_visible_None split: option.splits dest: first_visible_Some)
next
  case (3 d)
  show ?case by simp
next
  case (4 d n c es)
  then show ?case by auto
next
  case (5 d n ds es)
  then show ?case by (auto simp: find_in_walk_append split: option.splits)
qed

lemma find_first_maildir_file_None:
  "find_first_maildir_file f node = None \<longleftrightarrow> \<not> has_visible_file node"
  by (simp add: find_first_maildir_file_def visible_walk)

section \<open>The exit status of a converter decides nothing\<close>


lemma derive_filename_exit_status [simp]:
  "derive_filename (env\<lparr>exit_status := x\<rparr>) c p = derive_filename env c p"
  by (simp add: derive_filename_def part_extension_def)

lemma extract_part_exit_status [simp]:
  "extract_part (env\<lparr>exit_status := x\<rparr>) tmpdir sw p = extract_part env tmpdir sw p"
  by (simp add: extract_part_def Let_def)

lemma extract_parts_exit_status [simp]:
  "extract_parts (env\<lparr>exit_status := x\<rparr>) tmpdir sw ps = extract_parts env tmpdir sw ps"
  by (induction ps arbitrary: sw) (auto split: sum.splits)


lemma rewrite_html_part_exit_status [simp]:
  "rewrite_html_part prefs (env\<lparr>exit_status := x\<rparr>) tmpdir subs rw i h
     = rewrite_html_part prefs env tmpdir subs rw i h"
  by (simp add: rewrite_html_part_def Let_def split: option.splits prod.splits sum.splits)

lemma rewrite_html_parts_exit_status [simp]:
  "rewrite_html_parts prefs (env\<lparr>exit_status := x\<rparr>) tmpdir subs rw i hs
     = rewrite_html_parts prefs env tmpdir subs rw i hs"
  by (induction hs arbitrary: rw i) (auto split: sum.splits)











section \<open>The index and the dispatch loop\<close>

lemma set_dict_set: "set (dict_set d k v) \<subseteq> insert (k, v) (set d)"
  by (induction d k v rule: dict_set.induct) (auto split: if_splits)

lemma truthy_Some: "truthy x \<Longrightarrow> \<exists>s. x = Some s \<and> s \<noteq> []"
  by (cases x) auto

lemma extract_part_indexed:
  assumes "indexed_by_content_id (subfiles (fst sw))"
    and "extract_part env tmpdir sw p = Inr sw'"
  shows "indexed_by_content_id (subfiles (fst sw'))
     \<and> (\<not> truthy (content_id_of p) \<longrightarrow> subfiles (fst sw') = subfiles (fst sw))"
proof (cases p)
  case (Multi i ps)
  with assms show ?thesis by (simp add: extract_part_multi)
next
  case (Leaf i b)
  obtain st w where sw: "sw = (st, w)" by (cases sw)
  show ?thesis
  proof (cases "truthy (content_id_of p)")
    case False
    with assms show ?thesis
      unfolding sw Leaf extract_part_leaf by (auto simp: Let_def split: if_splits)
  next
    case True
    then obtain k where k: "content_id_of p = Some k" "k \<noteq> []" by (auto dest: truthy_Some)
    from assms(2) True k
    have "subfiles (fst sw')
            = dict_set (subfiles st) k (path_join tmpdir (saved_name env st p), p)"
      unfolding sw Leaf extract_part_leaf by (auto simp: Let_def split: if_splits)
    with set_dict_set [of "subfiles st" k "(path_join tmpdir (saved_name env st p), p)"]
      assms(1) k True
    show ?thesis by (auto simp: indexed_by_content_id_def sw)
  qed
qed

lemma extract_parts_indexed:
  assumes "indexed_by_content_id (subfiles (fst sw))"
    and "extract_parts env tmpdir sw ps = Inr sw'"
  shows "indexed_by_content_id (subfiles (fst sw'))
     \<and> ((\<forall>p \<in> set ps. \<not> truthy (content_id_of p)) \<longrightarrow> subfiles (fst sw') = subfiles (fst sw))"
  using assms
proof (induction ps arbitrary: sw)
  case Nil
  then show ?case by simp
next
  case (Cons p ps)
  from Cons.prems(2) obtain sw1 where
    s1: "extract_part env tmpdir sw p = Inr sw1" and
    s2: "extract_parts env tmpdir sw1 ps = Inr sw'"
    by (auto split: sum.splits)
  from extract_part_indexed [OF Cons.prems(1) s1] Cons.IH [OF _ s2]
  show ?case by auto
qed

lemma dispatch_entry_embedded:
  "fst entry \<in> set embedded \<Longrightarrow> dispatch_entry prefs env embedded w entry = Inr ((), w)"
  by (simp add: dispatch_entry_def)

lemma dispatch_subfiles_skip_embedded:
  "dispatch_subfiles prefs env embedded w subs
     = dispatch_subfiles prefs env embedded w (filter (\<lambda>entry. fst entry \<notin> set embedded) subs)"
  by (induction subs arbitrary: w) (auto simp: dispatch_entry_embedded split: sum.splits)

section \<open>Which arguments the browser is called with\<close>

lemma call_bg_result:
  "call_bg env cmd w = Inr (u, w') \<Longrightarrow> w' = w @ [Spawned cmd]"
  by (cases cmd) (auto split: if_splits)

lemma call_result:
  "call env cmd w = Inr (u, w') \<Longrightarrow> w' = w @ [Called cmd (exit_status env cmd)]"
  by (cases cmd) (auto split: if_splits)

lemma call_bg_raises: "call_bg env cmd w = Inl (e, w') \<Longrightarrow> w' = w"
  by (cases cmd) (auto split: if_splits)

lemma call_raises: "call env cmd w = Inl (e, w') \<Longrightarrow> w' = w"
  by (cases cmd) (auto split: if_splits)

lemma rewrite_html_part_spawn:
  assumes "rewrite_html_part prefs env tmpdir subs (r, w) i h = Inr (r', w')"
  shows "\<not> first_browser r'
     \<and> spawned w' = spawned w
         @ [browser_cmd prefs (if first_browser r then BROWSER_FIRST_ARGS prefs else BROWSER_ARGS prefs)
              (htmlfile_of tmpdir i)]"
  using assms
  by (auto simp: rewrite_html_part_def Let_def htmlfile_of_def browser_cmd_def
           split: if_splits option.splits sum.splits prod.splits dest!: call_bg_result)

lemma rewrite_html_parts_spawn:
  assumes "rewrite_html_parts prefs env tmpdir subs (r, w) i hs = Inr (r', w')"
  shows "spawned w' = spawned w
     @ (case hs of
          [] \<Rightarrow> []
        | h # hs' \<Rightarrow>
            browser_cmd prefs (if first_browser r then BROWSER_FIRST_ARGS prefs else BROWSER_ARGS prefs)
              (htmlfile_of tmpdir i)
            # map (\<lambda>j. browser_cmd prefs (BROWSER_ARGS prefs) (htmlfile_of tmpdir j))
                [Suc i ..< i + length hs])"
  using assms
proof (induction hs arbitrary: r w i)
  case Nil
  then show ?case by simp
next
  case (Cons h hs)
  from Cons.prems obtain r1 w1 where
    s1: "rewrite_html_part prefs env tmpdir subs (r, w) i h = Inr (r1, w1)" and
    s2: "rewrite_html_parts prefs env tmpdir subs (r1, w1) (Suc i) hs = Inr (r', w')"
    by (auto split: sum.splits)
  from rewrite_html_part_spawn [OF s1] have
    f: "\<not> first_browser r1" and
    w1: "spawned w1 = spawned w
         @ [browser_cmd prefs (if first_browser r then BROWSER_FIRST_ARGS prefs else BROWSER_ARGS prefs)
              (htmlfile_of tmpdir i)]"
    by simp_all
  have "spawned w' = spawned w1
     @ map (\<lambda>j. browser_cmd prefs (BROWSER_ARGS prefs) (htmlfile_of tmpdir j))
         [Suc i ..< Suc i + length hs]"
  proof (cases hs)
    case Nil
    with Cons.IH [OF s2] show ?thesis by simp
  next
    case (Cons h' hs')
    have "[Suc i ..< Suc i + length hs] = Suc i # [Suc (Suc i) ..< Suc i + length hs]"
      by (rule upt_conv_Cons) (simp add: Cons)
    with Cons.IH [OF s2] f Cons show ?thesis by simp
  qed
  with w1 show ?case by simp
qed


lemma extract_part_spawned:
  "spawned (events (extract_part env tmpdir (st, w) p)) = spawned w"
  by (cases p) (simp_all add: extract_part_leaf extract_part_multi Let_def)

lemma extract_parts_spawned:
  "spawned (events (extract_parts env tmpdir (st, w) ps)) = spawned w"
proof (induction ps arbitrary: st w)
  case Nil
  show ?case by simp
next
  case (Cons p ps)
  show ?case
  proof (cases "extract_part env tmpdir (st, w) p")
    case (Inl ew)
    with extract_part_spawned [of env tmpdir st w p] show ?thesis by simp
  next
    case (Inr sw1)
    obtain st1 w1 where "sw1 = (st1, w1)" by (cases sw1)
    with Inr extract_part_spawned [of env tmpdir st w p] Cons.IH [of st1 w1]
    show ?thesis by simp
  qed
qed

lemma adds_later_calls_same: "spawned (events r) = spawned w \<Longrightarrow> adds_later_calls prefs w r"
  by (simp add: adds_later_calls_def)

lemma adds_later_calls_bind:
  assumes "adds_later_calls prefs w r"
    and "\<And>u w1. r = Inr (u, w1) \<Longrightarrow> adds_later_calls prefs w1 (k u w1)"
  shows "adds_later_calls prefs w (case r of Inl e \<Rightarrow> Inl e | Inr (u, w1) \<Rightarrow> k u w1)"
proof (cases r)
  case (Inl ew)
  with assms(1) show ?thesis by simp
next
  case (Inr uw)
  obtain u w1 where uw: "uw = (u, w1)" by (cases uw)
  from assms(1) Inr uw obtain x1 where x1: "spawned w1 = spawned w @ x1"
    "\<forall>cmd \<in> set x1. later_call prefs cmd"
    by (auto simp: adds_later_calls_def)
  from assms(2) [of u w1] Inr uw obtain x2 where x2: "spawned (events (k u w1)) = spawned w1 @ x2"
    "\<forall>cmd \<in> set x2. later_call prefs cmd"
    by (auto simp: adds_later_calls_def)
  have "spawned (events (k u w1)) = spawned w @ (x1 @ x2)" using x1 x2 by simp
  moreover have "\<forall>cmd \<in> set (x1 @ x2). later_call prefs cmd" using x1 x2 by auto
  ultimately show ?thesis unfolding adds_later_calls_def Inr uw by (simp del: append_assoc)
qed

lemma call_adds: "adds_later_calls prefs w (call env cmd w)"
  by (cases cmd) (simp_all add: adds_later_calls_def)

lemma delayed_browser_adds: "adds_later_calls prefs w (delayed_browser prefs env file w)"
  by (auto simp: adds_later_calls_def delayed_browser_def later_call_def browser_cmd_def)

lemma convert_and_view_adds: "adds_later_calls prefs w (convert_and_view prefs env cmd file w)"
  unfolding convert_and_view_def
  by (rule adds_later_calls_bind) (rule call_adds, rule delayed_browser_adds)

lemma pdf_policy_adds: "adds_later_calls prefs w (pdf_policy prefs env p partfile fileparts w)"
  by (simp add: pdf_policy_def convert_and_view_adds delayed_browser_adds adds_later_calls_same)

lemma dispatch_application_adds:
  "adds_later_calls prefs w (dispatch_application prefs env p partfile fileparts w)"
proof -
  have ppt: "adds_later_calls prefs w
        (case call env cmd w of
           Inl e \<Rightarrow> Inl e
         | Inr (u, w') \<Rightarrow> pdf_policy prefs env p pdffile fileparts w')" for cmd pdffile
    by (rule adds_later_calls_bind) (rule call_adds, rule pdf_policy_adds)
  show ?thesis
    unfolding dispatch_application_def Let_def
    by (simp add: if_distrib [of "adds_later_calls prefs w"] convert_and_view_adds
          pdf_policy_adds ppt del: call.simps)
qed

lemma dispatch_entry_adds: "adds_later_calls prefs w (dispatch_entry prefs env embedded w entry)"
  by (simp add: dispatch_entry_def Let_def dispatch_application_adds adds_later_calls_same)

lemma dispatch_subfiles_adds:
  "adds_later_calls prefs w (dispatch_subfiles prefs env embedded w subs)"
proof (induction subs arbitrary: w)
  case Nil
  show ?case by (simp add: adds_later_calls_def)
next
  case (Cons entry rest)
  show ?case
    unfolding dispatch_subfiles.simps
    by (rule adds_later_calls_bind) (rule dispatch_entry_adds, rule Cons.IH)
qed

text \<open>
  The browser calls of a run that completes: when the message has an HTML part, the
  first call is for the first HTML part and carries \<open>BROWSER_FIRST_ARGS\<close>, and every
  other call, for a later HTML part or for a converted attachment, carries
  \<open>BROWSER_ARGS\<close>; when it has none, every call carries \<open>BROWSER_ARGS\<close>.
\<close>

lemma browser_calls_of_a_run:
  assumes "process_message prefs env tmpdir msg = Inr ((), w)"
    and "extract_parts env tmpdir (initial_extraction, []) (walk msg) = Inr (st, v)"
  shows "\<exists>extra. (\<forall>cmd \<in> set extra. later_call prefs cmd)
     \<and> spawned w =
         (case html_parts st of
            [] \<Rightarrow> extra
          | h # hs \<Rightarrow>
              browser_cmd prefs (BROWSER_FIRST_ARGS prefs) (htmlfile_of tmpdir 0)
              # map (\<lambda>j. browser_cmd prefs (BROWSER_ARGS prefs) (htmlfile_of tmpdir j))
                  [1 ..< length (html_parts st)]
              @ extra)"
proof -
  from extract_parts_spawned [of env tmpdir initial_extraction "[]" "walk msg"] assms(2)
  have v: "spawned v = []" by simp
  from assms obtain r v' where
    h: "rewrite_html_parts prefs env tmpdir (subfiles st)
          (\<lparr> embedded_parts = [], first_browser = True \<rparr>, v) 0 (html_parts st) = Inr (r, v')" and
    d: "dispatch_subfiles prefs env (embedded_parts r) v' (subfiles st) = Inr ((), w)"
    by (auto simp: process_message_def split: sum.splits prod.splits)
  from dispatch_subfiles_adds [of prefs v' env "embedded_parts r" "subfiles st"] d
  obtain extra where e: "spawned w = spawned v' @ extra" "\<forall>cmd \<in> set extra. later_call prefs cmd"
    by (auto simp: adds_later_calls_def)
  from rewrite_html_parts_spawn [OF h] v e show ?thesis
    by (auto split: list.splits)
qed

section \<open>Substituting one reference\<close>

lemma lower_char_dot: "lower_char c = CHR ''.'' \<longleftrightarrow> c = CHR ''.''"
proof
  assume "lower_char c = CHR ''.''"
  then have "(of_char (lower_char c) :: nat) = 46" by simp
  then have "(of_char c :: nat) = 46"
    by (auto simp: lower_char_def Let_def split: if_splits)
  then have "(of_char c :: nat) = of_char (CHR ''.'')" by simp
  then show "c = CHR ''.''" by (simp only: of_char_eq_iff)
next
  assume "c = CHR ''.''"
  then show "lower_char c = CHR ''.''" by (simp add: lower_char_def)
qed

lemma re_sub_in_place:
  assumes "\<forall>i < length pre. match_cid ident (drop i (pre @ rest)) = None"
    and "match_cid ident rest = Some n"
  shows "re_sub ident repl (pre @ rest) = pre @ repl @ re_sub ident repl (drop n rest)"
  using assms(1)
proof (induction pre)
  case Nil
  from assms(2) have "4 \<le> n" by (rule match_cid_at_least)
  with assms(2) obtain c cs where r: "rest = c # cs"
    by (cases rest) (auto simp: match_cid_def split: option.splits)
  with assms(2) show ?case by simp
next
  case (Cons c pre)
  from Cons.prems have "match_cid ident (drop 0 ((c # pre) @ rest)) = None" by blast
  then have here: "match_cid ident (c # pre @ rest) = None" by simp
  have "\<forall>i < length pre. match_cid ident (drop i (pre @ rest)) = None"
  proof (intro allI impI)
    fix i assume "i < length pre"
    then have "Suc i < length (c # pre)" by simp
    with Cons.prems have "match_cid ident (drop (Suc i) ((c # pre) @ rest)) = None" by blast
    then show "match_cid ident (drop i (pre @ rest)) = None" by simp
  qed
  with here Cons.IH show ?case by simp
qed

lemma match_compiled:
  assumes "compile_id cid = Some ident" and "same_ignoring_case ref cid"
  shows "match_atoms ident (ref @ post) = Some (length cid)"
proof -
  from assms(1) have ident: "ident = map (\<lambda>c. if c = CHR ''.'' then AnyChar else Lit c) cid"
    by (auto simp: compile_id_def split: if_splits)
  from assms(2) have len: "length ref = length cid"
    unfolding same_ignoring_case_def by (rule map_eq_imp_length_eq)
  from len assms(2) show ?thesis unfolding ident
  proof (induction ref cid rule: list_induct2)
    case Nil
    show ?case by simp
  next
    case (Cons x xs y ys)
    from Cons.prems have h: "lower_char x = lower_char y" and t: "same_ignoring_case xs ys"
      by (simp_all add: same_ignoring_case_def)
    have "atom_matches (if y = CHR ''.'' then AnyChar else Lit y) x"
    proof (cases "y = CHR ''.''")
      case True
      with h have "lower_char x = CHR ''.''" by (simp add: lower_char_def)
      then have "x = CHR ''.''" by (simp only: lower_char_dot)
      with True show ?thesis by simp
    next
      case False
      with h show ?thesis by simp
    qed
    with Cons.IH [OF t] show ?case by simp
  qed
qed

lemma lower_char_space: "lower_char c = CHR '' '' \<longleftrightarrow> c = CHR '' ''"
proof
  assume "lower_char c = CHR '' ''"
  then have "(of_char (lower_char c) :: nat) = 32" by simp
  then have "(of_char c :: nat) = 32"
    by (auto simp: lower_char_def Let_def split: if_splits)
  then have "(of_char c :: nat) = of_char (CHR '' '')" by simp
  then show "c = CHR '' ''" by (simp only: of_char_eq_iff)
next
  assume "c = CHR '' ''"
  then show "lower_char c = CHR '' ''" by (simp add: lower_char_def)
qed

lemma match_cid_prefix:
  assumes "same_ignoring_case c4 ''cid:''"
  shows "match_atoms (map Lit ''cid:'') (c4 @ s) = Some 4 \<and> length c4 = 4"
proof -
  from assms have "length c4 = 4"
    unfolding same_ignoring_case_def by (auto dest: map_eq_imp_length_eq)
  then obtain a b c d where c4: "c4 = [a, b, c, d]"
    by (auto simp: length_Suc_conv numeral_eq_Suc)
  with assms show ?thesis by (simp add: same_ignoring_case_def)
qed

lemma match_cid_reference:
  assumes "compile_id cid = Some ident" and "cid \<noteq> []" and "CHR '' '' \<notin> set cid"
    and "same_ignoring_case c4 ''cid:''" and "same_ignoring_case ref cid"
    and "sp = [] \<or> sp = '' ''"
  shows "match_cid ident (c4 @ sp @ ref @ post) = Some (length (c4 @ sp @ ref))"
proof -
  from match_cid_prefix [OF assms(4)] have
    m4: "\<And>s. match_atoms (map Lit ''cid:'') (c4 @ s) = Some 4" and l4: "length c4 = 4"
    by simp_all
  from assms(5) have len: "length ref = length cid"
    unfolding same_ignoring_case_def by (rule map_eq_imp_length_eq)
  from assms(2,3,5) len obtain x xs where ref: "ref = x # xs" and x: "x \<noteq> CHR '' ''"
  proof (cases ref)
    case Nil
    with len assms(2) show ?thesis by simp
  next
    case (Cons x xs)
    from assms(2) obtain y ys where cid: "cid = y # ys" by (cases cid) auto
    with assms(5) Cons have "lower_char x = lower_char y" by (simp add: same_ignoring_case_def)
    moreover from assms(3) cid have "y \<noteq> CHR '' ''" by auto
    ultimately have "x \<noteq> CHR '' ''" 
      by (metis lower_char_space)
    with Cons that show ?thesis by blast
  qed
  have mi: "match_atoms ident (ref @ post) = Some (length cid)"
    by (rule match_compiled [OF assms(1,5)])
  from assms(6) show ?thesis
  proof
    assume "sp = []"
    then show ?thesis
      using m4 [of "ref @ post"] mi l4 len x
      by (simp add: match_cid_def ref startswith_def)
  next
    assume "sp = '' ''"
    then show ?thesis
      using m4 [of "'' '' @ ref @ post"] mi l4 len
      by (simp add: match_cid_def startswith_def)
  qed
qed

text \<open>
  One substitution step. A reference \<open>cid:\<close>, an optional space and the identifier, in any
  letter case, with no match of the pattern starting before it, is replaced where it
  stands; the text before it is kept and the text after it is treated in the same way.
\<close>

lemma cid_reference_replaced_in_place:
  assumes "compile_id cid = Some ident" and "cid \<noteq> []" and "CHR '' '' \<notin> set cid"
    and "CHR 0x5C \<notin> set repl"
    and "same_ignoring_case c4 ''cid:''" and "same_ignoring_case ref cid"
    and "sp = [] \<or> sp = '' ''"
    and "\<forall>i < length pre. match_cid ident (drop i (pre @ c4 @ sp @ ref @ post)) = None"
  shows "sub_cid cid repl (pre @ c4 @ sp @ ref @ post)
           = Some (pre @ repl @ re_sub ident repl post)"
proof -
  have m: "match_cid ident ((c4 @ sp @ ref) @ post) = Some (length (c4 @ sp @ ref))"
    using match_cid_reference [OF assms(1,2,3,5,6,7), of post] by simp
  have "re_sub ident repl (pre @ (c4 @ sp @ ref) @ post)
          = pre @ repl @ re_sub ident repl (drop (length (c4 @ sp @ ref)) ((c4 @ sp @ ref) @ post))"
    by (rule re_sub_in_place) (use assms(8) m in simp_all)
  then have "re_sub ident repl (pre @ c4 @ sp @ ref @ post) = pre @ repl @ re_sub ident repl post"
    by simp
  with assms(1,4) show ?thesis by (simp add: sub_cid_def)
qed

text \<open>
  With that identifier alone in the index, the HTML written out has the file URL in
  place of the reference, and the identifier is recorded as embedded.
\<close>

lemma single_reference_rewritten:
  assumes "compile_id cid = Some ident" and "cid \<noteq> []" and "CHR '' '' \<notin> set cid"
    and "CHR 0x5C \<notin> set path"
    and "same_ignoring_case c4 ''cid:''" and "same_ignoring_case ref cid"
    and "sp = [] \<or> sp = '' ''"
    and "\<forall>i < length pre. match_cid ident (drop i (pre @ c4 @ sp @ ref @ post)) = None"
  shows "substitute_all [(cid, path, p)] [] (pre @ c4 @ sp @ ref @ post)
           = Some (pre @ ''file://'' @ path @ re_sub ident (''file://'' @ path) post, [cid])"
proof -
  have b: "CHR 0x5C \<notin> set (''file://'' @ path)" using assms(4) by simp
  from cid_reference_replaced_in_place [OF assms(1,2,3) b assms(5,6,7,8)]
  have s: "sub_cid cid (''file://'' @ path) (pre @ c4 @ sp @ ref @ post)
           = Some (pre @ (''file://'' @ path) @ re_sub ident (''file://'' @ path) post)" .
  from assms(5) obtain a r where c4: "c4 = a # r" and a: "lower_char a = CHR ''c''"
    by (cases c4) (auto simp: same_ignoring_case_def lower_char_def)
  have "a \<noteq> CHR ''f''" using a by (auto simp: lower_char_def)
  then have "pre @ (''file://'' @ path) @ re_sub ident (''file://'' @ path) post
               \<noteq> pre @ c4 @ sp @ ref @ post"
    by (simp add: c4)
  with s show ?thesis by simp
qed

text \<open>
  The filename set covers the parts only: the rewritten HTML of the first HTML part goes
  to \<open>viewhtml00.html\<close> whether or not a part was saved under that name.
\<close>

lemma rewritten_html_may_overwrite_a_part:
  "written_paths (events (process_message qutebrowser_prefs example_env ''/tmp/m''
                            html_named_like_output))
     = [''/tmp/m/viewhtml00.html'', ''/tmp/m/viewhtml00.html'']"
  by code_simp

text \<open>
  The loop after the HTML parts goes over the index only. Entries whose content-id was
  substituted into an HTML part are passed over: the loop does what it would do without
  them. One turn on an entry that was not substituted, of maintype \<open>application\<close>, is
  the conversion policy on it. The index holds only parts with a content-id that is not
  empty, so a part without one is never dispatched: for a message with no content-id at
  all the run ends with the HTML parts.
\<close>

lemma dispatch_follows_the_index:
  "dispatch_subfiles prefs env embedded w subs
     = dispatch_subfiles prefs env embedded w (filter (\<lambda>entry. fst entry \<notin> set embedded) subs)
   \<and> (sfid \<notin> set embedded \<and> get_content_maintype p = ''application'' \<longrightarrow>
        dispatch_entry prefs env embedded w (sfid, partfile, p)
          = dispatch_application prefs env p partfile (splitext partfile) w)
   \<and> (extract_parts env tmpdir (initial_extraction, []) (walk msg) = Inr (st, v) \<longrightarrow>
        indexed_by_content_id (subfiles st))
   \<and> ((\<forall>q \<in> set (walk msg). \<not> truthy (content_id_of q)) \<longrightarrow>
        process_message prefs env tmpdir msg
          = (case extract_parts env tmpdir (initial_extraction, []) (walk msg) of
               Inl e \<Rightarrow> Inl e
             | Inr (st, v) \<Rightarrow>
                 (case rewrite_html_parts prefs env tmpdir []
                         (\<lparr> embedded_parts = [], first_browser = True \<rparr>, v) 0 (html_parts st) of
                    Inl e \<Rightarrow> Inl e
                  | Inr (r, v') \<Rightarrow> Inr ((), v'))))"
proof -
  have i0: "indexed_by_content_id (subfiles (fst (initial_extraction, [])))"
    by (simp add: indexed_by_content_id_def initial_extraction_def)
  have 3: "indexed_by_content_id (subfiles st)"
    if "extract_parts env tmpdir (initial_extraction, []) (walk msg) = Inr (st, v)"
    using extract_parts_indexed [OF i0 that] by simp
  have 4: "process_message prefs env tmpdir msg
          = (case extract_parts env tmpdir (initial_extraction, []) (walk msg) of
               Inl e \<Rightarrow> Inl e
             | Inr (st, v) \<Rightarrow>
                 (case rewrite_html_parts prefs env tmpdir []
                         (\<lparr> embedded_parts = [], first_browser = True \<rparr>, v) 0 (html_parts st) of
                    Inl e \<Rightarrow> Inl e
                  | Inr (r, v') \<Rightarrow> Inr ((), v')))"
    if n: "\<forall>q \<in> set (walk msg). \<not> truthy (content_id_of q)"
  proof (cases "extract_parts env tmpdir (initial_extraction, []) (walk msg)")
    case (Inl e)
    then show ?thesis by (simp add: process_message_def)
  next
    case (Inr sw)
    from extract_parts_indexed [OF i0 Inr] n have "subfiles (fst sw) = []"
      by (simp add: initial_extraction_def)
    with Inr show ?thesis
      by (cases sw) (simp add: process_message_def split: sum.splits prod.splits)
  qed
  have 2: "dispatch_entry prefs env embedded w (sfid, partfile, p)
          = dispatch_application prefs env p partfile (splitext partfile) w"
    if "sfid \<notin> set embedded \<and> get_content_maintype p = ''application''"
    using that by (simp add: dispatch_entry_def)
  from dispatch_subfiles_skip_embedded [of prefs env embedded w subs] 2 3 4
  show ?thesis by blast
qed


text \<open>
  The loop stops at the first entry that raises. An \<open>application\<close> entry that is neither
  a Word document nor a PDF raises \<open>NameError\<close> at the test for PDF, so the Word
  attachment after it, never substituted either, is not converted.
\<close>

lemma dispatch_loop_stops_at_undefined_name:
  "process_message qutebrowser_prefs example_env ''/tmp/m'' zip_then_word
     = Inl (NameError ''pdf'',
            [Wrote ''/tmp/m/cidz.bin'' ''ZIP'', Wrote ''/tmp/m/a.doc'' ''DOC''])"
  by code_simp

section \<open>Claims\<close>

text \<open>
  Claim C7. When the name derived for a part is already in the run's filename set, the
  loop returns the first unused name among base-1, base-2, ... (the number put before
  the extension), and an extraction that completes has written as many files as there
  are non-multipart parts, all at different paths, so that none overwrites another.
\<close>

theorem colliding_names_get_distinct_files:
  assumes "extract_parts env tmpdir (initial_extraction, []) ps = Inr (st, w)"
  shows "distinct (written_paths w)
     \<and> length (written_paths w) = length (filter (\<lambda>p. \<not> is_multipart p) ps)
     \<and> (\<forall>fs c filename. filename \<in> set fs \<longrightarrow>
          (\<exists>k\<ge>1. unique_filename fs c filename = (suffixed_name filename k, k)
             \<and> suffixed_name filename k \<notin> set fs
             \<and> (\<forall>j. 1 \<le> j \<and> j < k \<longrightarrow> suffixed_name filename j \<in> set fs)))"
proof -
  have "names_ok tmpdir (initial_extraction, [])" by (simp add: names_ok_def)
  from extract_parts_names_ok [OF this assms] unique_filename_collision
  show ?thesis by (auto simp: names_ok_def)
qed

theorem colliding_names_get_distinct_files_witness:
  "extract_parts example_env ''/tmp/m'' (initial_extraction, []) (walk two_images)
     = Inr (\<lparr> counter = 1, filenames = [''image-1.png'', ''image.png''],
              subfiles = [], html_parts = [] \<rparr>,
            [Wrote ''/tmp/m/image.png'' ''A'', Wrote ''/tmp/m/image-1.png'' ''B''])
   \<and> distinct (written_paths [Wrote ''/tmp/m/image.png'' ''A'', Wrote ''/tmp/m/image-1.png'' ''B''])
   \<and> length (written_paths [Wrote ''/tmp/m/image.png'' ''A'', Wrote ''/tmp/m/image-1.png'' ''B''])
       = length (filter (\<lambda>p. \<not> is_multipart p) (walk two_images))
   \<and> unique_filename [''image.png''] 1 ''image.png'' = (suffixed_name ''image.png'' 1, 1)"
proof -
  have run: "extract_parts example_env ''/tmp/m'' (initial_extraction, []) (walk two_images)
     = Inr (\<lparr> counter = 1, filenames = [''image-1.png'', ''image.png''],
              subfiles = [], html_parts = [] \<rparr>,
            [Wrote ''/tmp/m/image.png'' ''A'', Wrote ''/tmp/m/image-1.png'' ''B''])"
    by code_simp
  have name: "unique_filename [''image.png''] 1 ''image.png'' = (suffixed_name ''image.png'' 1, 1)"
    by code_simp
  from colliding_names_get_distinct_files [OF run] run name show ?thesis by simp
qed

text \<open>
  Claim C8. Every character that filename sanitization returns is a letter, a digit,
  \<open>-\<close>, \<open>_\<close> or \<open>.\<close>; the result has no path separator, and it is the input with
  characters left out, so a dot in it was a dot of the input.
\<close>

theorem sanitize_filename_allowed_chars:
  "set (sanitize_filename s)
     \<subseteq> {c. isalpha c \<or> isdigit c \<or> c = CHR ''-'' \<or> c = CHR ''_'' \<or> c = CHR ''.''}
   \<and> CHR ''/'' \<notin> set (sanitize_filename s)
   \<and> subseq (sanitize_filename s) s"
  by (auto simp: sanitize_filename_def isalpha_def isdigit_def)

text \<open>
  Claim C10. A declared filename that is not empty and has no letter, digit, \<open>-\<close>, \<open>_\<close>
  or \<open>.\<close> is sanitized to the empty string; the empty string is the derived name, with
  no fallback; and, the first time this happens in a run, the part is written to the
  working directory joined with the empty name, which is the working directory itself
  as a directory path.
\<close>

theorem unsanitizable_filename_targets_tmpdir:
  assumes "filename \<noteq> []"
    and "\<forall>c \<in> set filename. \<not> isalpha c \<and> \<not> isdigit c \<and> c \<notin> set ''-_.''"
    and "get_filename (Leaf i b) = Some filename"
    and "[] \<notin> set (filenames st)"
  shows "sanitize_filename filename = []
     \<and> derive_filename env c (Leaf i b) = []
     \<and> saved_name env st (Leaf i b) = []
     \<and> path_join tmpdir [] = dir_prefix tmpdir
     \<and> events (extract_part env tmpdir (st, w) (Leaf i b))
         = (if can_write env (dir_prefix tmpdir) then w @ [Wrote (dir_prefix tmpdir) b] else w)
     \<and> (\<not> can_write env (dir_prefix tmpdir) \<longrightarrow>
          extract_part env tmpdir (st, w) (Leaf i b) = Inl (OSError (dir_prefix tmpdir), w))"
proof -
  have s: "sanitize_filename filename = []" using assms(2) by (rule sanitize_filename_empty)
  have d: "derive_filename env c' (Leaf i b) = []" for c'
    using assms(1,3) s by (simp add: derive_filename_def)
  have n: "saved_name env st (Leaf i b) = []"
    using assms(4) by (simp add: saved_name_def d unique_filename_def)
  show ?thesis
    using s d n by (simp add: extract_part_leaf Let_def path_join_empty)
qed

theorem unsanitizable_filename_targets_tmpdir_witness:
  "sanitize_filename ''???'' = []
   \<and> derive_filename example_env 1 unnamed_attachment = []
   \<and> path_join ''/tmp/m'' [] = ''/tmp/m/''
   \<and> extract_part example_env ''/tmp/m'' (initial_extraction, []) unnamed_attachment
       = Inl (OSError ''/tmp/m/'', [])"
proof -
  have h1: "''???'' \<noteq> []" by simp
  have h2: "\<forall>c \<in> set ''???''. \<not> isalpha c \<and> \<not> isdigit c \<and> c \<notin> set ''-_.''"
    by (simp add: isalpha_def isdigit_def)
  have h3: "get_filename (Leaf (mk_info [] ''application'' ''octet-stream'' (Some ''???'')) ''BYTES'')
              = Some ''???''"
    by (simp add: get_filename_def mk_info_def)
  have h4: "[] \<notin> set (filenames initial_extraction)" by (simp add: initial_extraction_def)
  have d: "dir_prefix ''/tmp/m'' = ''/tmp/m/''" by code_simp
  have c: "\<not> can_write example_env ''/tmp/m/''" by code_simp
  from unsanitizable_filename_targets_tmpdir [OF h1 h2 h3 h4, of example_env 1 "''/tmp/m''" "[]"] d c
  show ?thesis by (simp add: unnamed_attachment_def)
qed

text \<open>
  Against claim C5 as written: a part declared \<open>multipart/mixed\<close> without a boundary is
  a container by its media type, it has no sub-parts, and the loop saves it as a file.
\<close>

theorem boundaryless_multipart_is_written_counterexample:
  "declared_container boundaryless_multipart
   \<and> \<not> is_multipart boundaryless_multipart
   \<and> as_parsed message_with_boundaryless_part
   \<and> writes (events (extract_parts example_env ''/tmp/m'' (initial_extraction, [])
                         (walk message_with_boundaryless_part)))
       = [(''/tmp/m/part-001.txt'', ''HELLO''), (''/tmp/m/part-001.bin'', ''no boundary here'')]"
proof -
  have "as_parsed message_with_boundaryless_part" unfolding as_parsed_def by code_simp
  moreover have "declared_container boundaryless_multipart
   \<and> \<not> is_multipart boundaryless_multipart
   \<and> writes (events (extract_parts example_env ''/tmp/m'' (initial_extraction, [])
                         (walk message_with_boundaryless_part)))
       = [(''/tmp/m/part-001.txt'', ''HELLO''), (''/tmp/m/part-001.bin'', ''no boundary here'')]"
    by code_simp
  ultimately show ?thesis by blast
qed

text \<open>
  Claim C5, amended. For every message as the parser builds it, a part that has
  sub-parts is never saved as a file, and that covers every multipart whose boundary the
  parser found and every \<open>message/rfc822\<close> part. The loop does exactly what it would do
  on the parts that have no sub-parts: the files it writes hold, in order, the payloads
  of those parts and nothing else, whether the loop completes or a write stops it. A
  part declared \<open>multipart/*\<close> that has no sub-parts is among them.
\<close>

theorem parts_with_subparts_are_never_written:
  assumes "as_parsed msg"
  shows "extract_parts env tmpdir (initial_extraction, []) (walk msg)
           = extract_parts env tmpdir (initial_extraction, [])
               (filter (\<lambda>p. \<not> is_multipart p \<and> get_content_type p \<noteq> ''message/rfc822'') (walk msg))
     \<and> prefix (map snd (writes (events
                 (extract_parts env tmpdir (initial_extraction, []) (walk msg)))))
         (payloads (filter (\<lambda>p. \<not> is_multipart p \<and> get_content_type p \<noteq> ''message/rfc822'') (walk msg)))
     \<and> (\<forall>st w. extract_parts env tmpdir (initial_extraction, []) (walk msg) = Inr (st, w) \<longrightarrow>
           map snd (writes w) = payloads (filter (\<lambda>p. \<not> is_multipart p \<and> get_content_type p \<noteq> ''message/rfc822'') (walk msg)))"
proof -
  let ?leaves = "filter (\<lambda>p. \<not> is_multipart p \<and> get_content_type p \<noteq> ''message/rfc822'') (walk msg)"
  let ?run = "extract_parts env tmpdir (initial_extraction, []) (walk msg)"
  have f: "?leaves = filter (\<lambda>p. \<not> is_multipart p) (walk msg)"
    using assms by (auto intro!: filter_cong dest: as_parsed_rfc822)
  have 1: "?run = extract_parts env tmpdir (initial_extraction, []) ?leaves"
    unfolding f by (rule extract_parts_skip_multipart)
  have 3: "map snd (writes w) = payloads ?leaves" if "?run = Inr (st, w)" for st w
    using extract_parts_writes [OF that] by (simp add: f payloads_not_multipart)
  have 2: "prefix (map snd (writes (events ?run))) (payloads ?leaves)"
  proof (cases ?run)
    case (Inl ew)
    obtain e w where "ew = (e, w)" by (cases ew)
    with Inl extract_parts_raises [of env tmpdir initial_extraction "[]" "walk msg" e w]
    show ?thesis by (simp add: f payloads_not_multipart)
  next
    case (Inr sw)
    obtain st w where "sw = (st, w)" by (cases sw)
    with Inr 3 [of st w] show ?thesis by simp
  qed
  from 1 2 3 show ?thesis by blast
qed

theorem parts_with_subparts_are_never_written_witness:
  "as_parsed forwarded_message
   \<and> filter (\<lambda>p. \<not> is_multipart p \<and> get_content_type p \<noteq> ''message/rfc822'') (walk forwarded_message)
       = [Leaf (mk_info [] ''text'' ''plain'' None) ''HELLO'',
          Leaf (mk_info [] ''text'' ''plain'' None) ''INNER'']
   \<and> map snd (writes (events
        (extract_parts example_env ''/tmp/m'' (initial_extraction, []) (walk forwarded_message))))
       = [''HELLO'', ''INNER'']"
proof -
  have h: "as_parsed forwarded_message" unfolding as_parsed_def by code_simp
  have l: "filter (\<lambda>p. \<not> is_multipart p \<and> get_content_type p \<noteq> ''message/rfc822'') (walk forwarded_message)
       = [Leaf (mk_info [] ''text'' ''plain'' None) ''HELLO'',
          Leaf (mk_info [] ''text'' ''plain'' None) ''INNER'']"
    by code_simp
  have r: "extract_parts example_env ''/tmp/m'' (initial_extraction, []) (walk forwarded_message)
       = Inr (\<lparr> counter = 1, filenames = [''part-001-1.txt'', ''part-001.txt''],
                subfiles = [], html_parts = [] \<rparr>,
              [Wrote ''/tmp/m/part-001.txt'' ''HELLO'', Wrote ''/tmp/m/part-001-1.txt'' ''INNER''])"
    by code_simp
  from parts_with_subparts_are_never_written [OF h, of example_env "''/tmp/m''"]
  have "\<forall>st w. extract_parts example_env ''/tmp/m'' (initial_extraction, [])
            (walk forwarded_message) = Inr (st, w) \<longrightarrow>
          map snd (writes w) = payloads (filter (\<lambda>p. \<not> is_multipart p \<and> get_content_type p \<noteq> ''message/rfc822'') (walk forwarded_message))"
    by blast
  with r have "map snd (writes [Wrote ''/tmp/m/part-001.txt'' ''HELLO'',
                                 Wrote ''/tmp/m/part-001-1.txt'' ''INNER''])
      = payloads (filter (\<lambda>p. \<not> is_multipart p \<and> get_content_type p \<noteq> ''message/rfc822'') (walk forwarded_message))"
    by blast
  then have "map snd (writes (events
        (extract_parts example_env ''/tmp/m'' (initial_extraction, []) (walk forwarded_message))))
       = [''HELLO'', ''INNER'']"
    unfolding r l by simp
  with h l show ?thesis by blast
qed

text \<open>
  Against claim C6 as written: for a part with no declared filename, the content-id
  \<open>a@b\<close> and the extension \<open>.png\<close>, the derived name is not \<open>cid\<close>, content-id and
  extension put together: the \<open>@\<close> is gone.
\<close>

theorem cid_filename_is_sanitized_counterexample:
  "get_filename inline_image = None
   \<and> content_id_of inline_image = Some ''a@b''
   \<and> part_extension example_env inline_image = ''.png''
   \<and> derive_filename example_env 2 inline_image = ''cidab.png''
   \<and> derive_filename example_env 2 inline_image \<noteq> ''cid'' @ ''a@b'' @ ''.png''"
  by code_simp

text \<open>
  Claim C6, amended. The derived filename is (a) the declared filename, sanitized, when
  the part declares a filename that is not empty; otherwise (b) the sanitized form of
  \<open>cid\<close>, content-id and extension put together, when the part has a content-id that is
  not empty; otherwise (c) \<open>part-\<close>, the loop's counter padded with zeros to three
  digits or more, and the extension. The extension is the one guessed from the media
  type, or \<open>.bin\<close> when none is guessed. A part is written under its derived name when
  that name is not yet in the filename set.
\<close>

theorem derive_filename_priority:
  "(truthy (get_filename p) \<longrightarrow>
      derive_filename env c p = sanitize_filename (the (get_filename p)))
   \<and> (\<not> truthy (get_filename p) \<and> truthy (content_id_of p) \<longrightarrow>
      derive_filename env c p
        = sanitize_filename (''cid'' @ the (content_id_of p) @ part_extension env p))
   \<and> (\<not> truthy (get_filename p) \<and> \<not> truthy (content_id_of p) \<longrightarrow>
      derive_filename env c p = ''part-'' @ zero_pad 3 c @ part_extension env p)
   \<and> part_extension env p
       = (case guess_extension env (get_content_type p) of
            None \<Rightarrow> ''.bin''
          | Some e \<Rightarrow> if e = [] then ''.bin'' else e)
   \<and> 3 \<le> length (zero_pad 3 c) \<and> nat_of_str (zero_pad 3 c) = c
   \<and> (derive_filename env (counter_after_headers (counter st) (Leaf i b)) (Leaf i b)
        \<notin> set (filenames st) \<longrightarrow>
      events (extract_part env tmpdir (st, w) (Leaf i b))
        = (let path = path_join tmpdir
                 (derive_filename env (counter_after_headers (counter st) (Leaf i b)) (Leaf i b))
           in if can_write env path then w @ [Wrote path b] else w))"
proof -
  have ext: "part_extension env p
       = (case guess_extension env (get_content_type p) of
            None \<Rightarrow> ''.bin''
          | Some e \<Rightarrow> if e = [] then ''.bin'' else e)"
    by (simp add: part_extension_def split: option.splits)
  have used: "events (extract_part env tmpdir (st, w) (Leaf i b))
        = (let path = path_join tmpdir
                 (derive_filename env (counter_after_headers (counter st) (Leaf i b)) (Leaf i b))
           in if can_write env path then w @ [Wrote path b] else w)"
    if "derive_filename env (counter_after_headers (counter st) (Leaf i b)) (Leaf i b)
        \<notin> set (filenames st)"
    using that by (simp add: extract_part_leaf saved_name_def unique_filename_def Let_def)
  show ?thesis
    using ext used by (simp add: derive_filename_def zero_pad_length zero_pad_value)
qed

theorem derive_filename_priority_witness:
  "derive_filename example_env 1 image_a = ''image.png''
   \<and> derive_filename example_env 2 inline_image = ''cidab.png''
   \<and> derive_filename example_env 7 plain_part = ''part-007.txt''
   \<and> events (extract_part example_env ''/tmp/m'' (initial_extraction, []) plain_part)
       = [Wrote ''/tmp/m/part-001.txt'' ''TEXT'']"
proof -
  have a: "truthy (get_filename image_a)" "sanitize_filename (the (get_filename image_a)) = ''image.png''"
    by code_simp+
  have b: "\<not> truthy (get_filename inline_image) \<and> truthy (content_id_of inline_image)"
     "sanitize_filename (''cid'' @ the (content_id_of inline_image) @ part_extension example_env inline_image) = ''cidab.png''"
    by code_simp+
  have c: "\<not> truthy (get_filename plain_part) \<and> \<not> truthy (content_id_of plain_part)"
     "''part-'' @ zero_pad 3 7 @ part_extension example_env plain_part = ''part-007.txt''"
    by code_simp+
  have d: "derive_filename example_env (counter_after_headers (counter initial_extraction)
              (Leaf (mk_info [] ''text'' ''plain'' None) ''TEXT''))
              (Leaf (mk_info [] ''text'' ''plain'' None) ''TEXT'')
            \<notin> set (filenames initial_extraction)"
    by code_simp
  have e: "(let path = path_join ''/tmp/m''
                 (derive_filename example_env (counter_after_headers (counter initial_extraction)
                    (Leaf (mk_info [] ''text'' ''plain'' None) ''TEXT''))
                    (Leaf (mk_info [] ''text'' ''plain'' None) ''TEXT''))
           in if can_write example_env path then [] @ [Wrote path ''TEXT''] else [])
         = [Wrote ''/tmp/m/part-001.txt'' ''TEXT'']"
    by code_simp
  from derive_filename_priority [of image_a example_env 1] a
  have 1: "derive_filename example_env 1 image_a = ''image.png''" by simp
  from derive_filename_priority [of inline_image example_env 2] b
  have 2: "derive_filename example_env 2 inline_image = ''cidab.png''" by simp
  from derive_filename_priority [of plain_part example_env 7] c
  have 3: "derive_filename example_env 7 plain_part = ''part-007.txt''" by simp
  from derive_filename_priority [of plain_part example_env 7 initial_extraction
         "mk_info [] ''text'' ''plain'' None" "''TEXT''" "''/tmp/m''" "[]"] d e
  have 4: "events (extract_part example_env ''/tmp/m'' (initial_extraction, []) plain_part)
       = [Wrote ''/tmp/m/part-001.txt'' ''TEXT'']"
    unfolding plain_part_def by simp
  from 1 2 3 4 show ?thesis by blast
qed

text \<open>
  On claim C3, what the code does. For every maildir that holds no file with a visible
  name, \<open>find_first_maildir_file\<close> returns \<open>None\<close> and the run then raises: \<open>TypeError\<close>
  from \<open>open(None)\<close> when the directory lists anything, \<open>AttributeError\<close> from
  \<open>msg.walk()\<close> when it lists nothing. No part is extracted, but the missing message is
  not reported as such and the run does not survive it.
\<close>

theorem maildir_without_message_raises:
  assumes "f \<noteq> []" and "\<not> has_visible_file (Directory es)"
  shows "find_first_maildir_file f (Directory es) = None
     \<and> view_html_message prefs env f (Some (Directory es)) stdin tmpdir
         = Inl (if es = [] then AttributeError else TypeError, [])"
proof -
  have n: "find_first_maildir_file f (Directory es) = None"
    using assms(2) by (simp only: find_first_maildir_file_None not_False_eq_True)
  show ?thesis
    using assms(1) n
    by (cases es) (simp_all add: view_html_message_def load_message_def)
qed

theorem maildir_without_message_raises_witness:
  "find_first_maildir_file ''/tmp/mutttmpbox'' hidden_only_maildir = None
   \<and> view_html_message qutebrowser_prefs example_env ''/tmp/mutttmpbox'' (Some hidden_only_maildir) [] ''/tmp/m''
       = Inl (TypeError, [])"
proof -
  have h1: "''/tmp/mutttmpbox'' \<noteq> []" by simp
  have h2: "\<not> has_visible_file (Directory [(''.lock'', RegFile ''''), (''cur'', Directory [(''.hidden'', RegFile ''x'')]), (''new'', Directory [])])"
    by code_simp
  from maildir_without_message_raises [OF h1 h2, of qutebrowser_prefs example_env "[]" "''/tmp/m''"]
  show ?thesis unfolding hidden_only_maildir_def by simp
qed




text \<open>
  On claim C1, what the code does. The index holds \<open>img1\<close> and \<open>img10\<close>, and the HTML
  part refers to \<open>cid:img10\<close>. The substitution for \<open>img1\<close> runs first and takes the
  reference up to its last character: the HTML written out points at the file of \<open>img1\<close>
  with a stray \<open>0\<close> behind it, and nowhere at the file of \<open>img10\<close>.
\<close>

theorem reference_to_longer_identifier_is_misrewritten:
  "map (\<lambda>entry. (fst entry, fst (snd entry)))
       (subfiles (fst (projr (extract_parts example_env ''/tmp/m'' (initial_extraction, [])
                                (walk prefix_message)))))
     = [(''img1'', ''/tmp/m/cidimg1.png''), (''img10'', ''/tmp/m/cidimg10.png'')]
   \<and> writes (events (process_message qutebrowser_prefs example_env ''/tmp/m'' prefix_message))
     = [(''/tmp/m/part-001.html'', ''<img src=cid:img10>''),
        (''/tmp/m/cidimg1.png'', ''ONE''),
        (''/tmp/m/cidimg10.png'', ''TEN''),
        (''/tmp/m/viewhtml00.html'', ''<img src=file:///tmp/m/cidimg1.png0>'')]"
  by code_simp

text \<open>
  On claim C2, what the code does. A Word attachment with no content-id was substituted
  into no HTML part, and its maintype is \<open>application\<close>; it is extracted and then
  neither converted nor shown, because the loop after the HTML parts goes over the index
  of content-ids only. The same attachment with a content-id is converted and shown.
\<close>

theorem attachment_without_content_id_is_not_dispatched:
  "content_id_of word_attachment = None
   \<and> get_content_maintype word_attachment = ''application''
   \<and> process_message qutebrowser_prefs example_env ''/tmp/m'' word_message
       = Inr ((), [Wrote ''/tmp/m/part-001.txt'' ''See attached.'',
                   Wrote ''/tmp/m/a.doc'' ''DOC''])
   \<and> process_message qutebrowser_prefs example_env ''/tmp/m'' word_message_cid
       = Inr ((), [Wrote ''/tmp/m/part-001.txt'' ''See attached.'',
                   Wrote ''/tmp/m/a.doc'' ''DOC'',
                   Called [''unoconv'', ''-f'', ''html'', ''-T'', ''14'', ''-o'',
                           ''/tmp/m/a.html'', ''/tmp/m/a.doc''] 0,
                   Spawned [''qutebrowser'', ''--target'', ''tab-bg'', ''--basedir'',
                            ''/tmp/mailattachments'', ''file:///tmp/m/a.html'']])"
  by code_simp

text \<open>
  On claim C9, what the code does. For a message that is one PDF attachment with a
  content-id and no HTML part, the first and only call of the browser comes from
  \<open>delayed_browser\<close> and carries \<open>BROWSER_ARGS\<close>, not \<open>BROWSER_FIRST_ARGS\<close>. For a message
  that is one HTML body the only call carries \<open>BROWSER_FIRST_ARGS\<close>.
\<close>

theorem first_dispatch_of_attachment_uses_later_arguments:
  "spawned (events (process_message qutebrowser_prefs example_env ''/tmp/m'' pdf_attachment))
     = [[BROWSER qutebrowser_prefs] @ BROWSER_ARGS qutebrowser_prefs
          @ [''file:///tmp/m/ciddoc1-html.html'']]
   \<and> BROWSER_ARGS qutebrowser_prefs \<noteq> BROWSER_FIRST_ARGS qutebrowser_prefs
   \<and> spawned (events (process_message qutebrowser_prefs example_env ''/tmp/m'' html_ref10))
     = [[BROWSER qutebrowser_prefs] @ BROWSER_FIRST_ARGS qutebrowser_prefs
          @ [''file:///tmp/m/viewhtml00.html'']]"
  by code_simp

end
